theory Spec2Isabelle
  imports Main "HOL-Library.AList" "HOL-Library.Multiset"
begin

section \<open>Data model of ConfigContentWatcher.ts\<close>

text \<open>
  The payload type \<open>T\<close> of the source is the type variable \<open>'a\<close>; \<open>fast-deep-equal\<close> on
  two payloads is HOL equality on \<open>'a\<close>. The caller-supplied identity function
  \<open>getId\<close> is a parameter of every function that uses it.
\<close>

record 'a ConfigSet =
  filename :: string
  obj :: 'a

text \<open>
  \<open>ConfigSetAction<T>\<close>: the tag \<open>name\<close> of the source (\<open>'add' | 'update' | 'remove' |
  'moved'\<close>) is the constructor; the arguments are the fields \<open>id\<close> and \<open>item\<close>.
\<close>

datatype 'a ConfigSetAction =
    Add string "'a ConfigSet"
  | Update string "'a ConfigSet"
  | Remove string
  | Moved string "'a ConfigSet"

fun action_id :: "'a ConfigSetAction \<Rightarrow> string" where
  "action_id (Add ident item) = ident"
| "action_id (Update ident item) = ident"
| "action_id (Remove ident) = ident"
| "action_id (Moved ident item) = ident"

section \<open>The state object\<close>

text \<open>
  \<open>{ [id: string]: ConfigSet<T> }\<close> is a plain JavaScript object. Its own properties
  are kept as an association list in creation order. Three facts of the language are
  written out, because the source relies on them:
  \<^item> \<open>Object.values\<close>, object spread and object rest enumerate the own properties with the
    array-index keys first, in ascending numeric order, then the other keys in creation
    order;
  \<^item> a property read \<open>state[id]\<close> that finds no own property continues in
    \<open>Object.prototype\<close>;
  \<^item> \<open>Object.prototype.hasOwnProperty.call\<close> looks at own properties only.
\<close>

type_synonym 'a State = "(string \<times> 'a ConfigSet) list"

definition is_digit :: "char \<Rightarrow> bool" where
  "is_digit c = (c \<in> set ''0123456789'')"

definition digit_value :: "char \<Rightarrow> nat" where
  "digit_value c = length (takeWhile (\<lambda>d. d \<noteq> c) ''0123456789'')"

definition decimal_value :: "string \<Rightarrow> nat" where
  "decimal_value s = foldl (\<lambda>n c. 10 * n + digit_value c) 0 s"

text \<open>
  An array index is the canonical decimal string of an integer from 0 to \<open>2^32 - 2\<close>.
\<close>

definition array_index :: "string \<Rightarrow> nat option" where
  "array_index s =
     (if s \<noteq> [] \<and> list_all is_digit s \<and> (s = ''0'' \<or> hd s \<noteq> CHR ''0'')
         \<and> decimal_value s \<le> 4294967294
      then Some (decimal_value s) else None)"

definition index_rank :: "string \<times> 'v \<Rightarrow> nat" where
  "index_rank p = (case array_index (fst p) of Some n \<Rightarrow> n | None \<Rightarrow> 0)"

definition Object_entries :: "(string \<times> 'v) list \<Rightarrow> (string \<times> 'v) list" where
  "Object_entries o_props =
     sort_key index_rank (filter (\<lambda>p. array_index (fst p) \<noteq> None) o_props)
     @ filter (\<lambda>p. array_index (fst p) = None) o_props"

definition Object_values :: "(string \<times> 'v) list \<Rightarrow> 'v list" where
  "Object_values o_props = map snd (Object_entries o_props)"

definition hasOwnProperty :: "(string \<times> 'v) list \<Rightarrow> string \<Rightarrow> bool" where
  "hasOwnProperty o_props ident = (ident \<in> fst ` set o_props)"

text \<open>
  The property names every object inherits from \<open>Object.prototype\<close> (ECMAScript,
  with Annex B). All of them hold functions or objects, hence truthy values without a
  property \<open>obj\<close> or \<open>filename\<close>.
\<close>

definition Object_prototype_keys :: "string list" where
  "Object_prototype_keys =
     [''constructor'', ''hasOwnProperty'', ''isPrototypeOf'', ''propertyIsEnumerable'',
      ''toLocaleString'', ''toString'', ''valueOf'', ''__proto__'',
      ''__defineGetter__'', ''__defineSetter__'', ''__lookupGetter__'',
      ''__lookupSetter__'']"

text \<open>The result of a property read: \<open>undefined\<close>, an own value, or an inherited one.\<close>

datatype 'v js_property = Undefined | OwnValue 'v | PrototypeValue string

definition property_get :: "(string \<times> 'v) list \<Rightarrow> string \<Rightarrow> 'v js_property" where
  "property_get o_props ident =
     (case map_of o_props ident of
        Some v \<Rightarrow> OwnValue v
      | None \<Rightarrow> if ident \<in> set Object_prototype_keys then PrototypeValue ident
                else Undefined)"

text \<open>\<open>{ ...o, [id]: v }\<close>: copy the own properties in enumeration order, then define \<open>id\<close>.\<close>

definition spread_with :: "(string \<times> 'v) list \<Rightarrow> string \<Rightarrow> 'v \<Rightarrow> (string \<times> 'v) list" where
  "spread_with o_props ident v = AList.update ident v (Object_entries o_props)"

text \<open>\<open>const { [id]: removed, ...rest } = o\<close>: the rest object.\<close>

definition rest_without :: "(string \<times> 'v) list \<Rightarrow> string \<Rightarrow> (string \<times> 'v) list" where
  "rest_without o_props ident = AList.delete ident (Object_entries o_props)"

section \<open>The watcher object and its two subjects\<close>

text \<open>
  \<open>_state$\<close> is a BehaviorSubject: \<open>state\<close> is its current value. Every value pushed on
  \<open>_state$\<close> and on \<open>_changes$\<close> is appended to \<open>trace\<close>, in the order of the calls.
\<close>

datatype 'a effect = StateNext "'a State" | ChangesNext "'a ConfigSetAction"

record 'a Watcher =
  state :: "'a State"
  trace :: "'a effect list"

definition state_next :: "'a State \<Rightarrow> 'a Watcher \<Rightarrow> 'a Watcher" where
  "state_next s w = w\<lparr>state := s, trace := trace w @ [StateNext s]\<rparr>"

definition changes_next :: "'a ConfigSetAction \<Rightarrow> 'a Watcher \<Rightarrow> 'a Watcher" where
  "changes_next a w = w\<lparr>trace := trace w @ [ChangesNext a]\<rparr>"

definition new_watcher :: "'a Watcher" where
  "new_watcher = \<lparr>state = [], trace = []\<rparr>"

text \<open>
  \<open>addOrUpdateSet(cfgSet)\<close>: the argument may be \<open>null\<close> (\<open>None\<close>); the result is the
  returned value and the watcher after the call. Both branches of the source's
  \<open>hasOwnProperty\<close> test push the same object.
\<close>

definition addOrUpdateSet ::
  "('a \<Rightarrow> string) \<Rightarrow> 'a ConfigSet option \<Rightarrow> 'a Watcher \<Rightarrow> 'a ConfigSet option \<times> 'a Watcher" where
  "addOrUpdateSet getId cfgSet w =
     (case cfgSet of
        None \<Rightarrow> (None, w)
      | Some cs \<Rightarrow>
          (let ident = getId (obj cs) in
           if hasOwnProperty (state w) ident
           then (Some cs, state_next (spread_with (state w) ident cs) w)
           else (Some cs, state_next (spread_with (state w) ident cs) w)))"

text \<open>
  \<open>removeSet(id)\<close>: an empty \<open>id\<close> is falsy. \<open>removedCfgSet\<close> is read through the
  prototype chain; any value but \<open>undefined\<close> is truthy here.
\<close>

definition removeSet ::
  "string \<Rightarrow> 'a Watcher \<Rightarrow> 'a ConfigSet js_property \<times> 'a Watcher" where
  "removeSet ident w =
     (if ident = [] then (Undefined, w)
      else
        (let removedCfgSet = property_get (state w) ident;
             rest = rest_without (state w) ident
         in if removedCfgSet \<noteq> Undefined then (removedCfgSet, state_next rest w)
            else (removedCfgSet, w)))"

section \<open>Source events and the validation stage\<close>

text \<open>
  \<open>ConfigFileChange\<close> (declared with the source drivers) and \<open>ValidationResult<T>\<close>.
  The field names carry a prefix, as the field \<open>filename\<close> belongs to \<open>ConfigSet\<close>.
  \<open>content\<close> is \<open>string | null\<close>.
\<close>

datatype ChangeType = TypeAdd | TypeUpdate | TypeRemove

record ConfigFileChange =
  fc_type :: ChangeType
  fc_filename :: string
  fc_content :: "string option"

text \<open>
  What \<open>validateConfigFile\<close> can catch: an exception of \<open>yaml.loadAll\<close>, or its own
  \<open>Error\<close> for a file with an item the schema rejects (the message names the file).
\<close>

datatype Error = YAMLException | FormattingErrors string

record 'a ValidationResult =
  vr_filename :: string
  vr_data :: "'a list option"
  vr_error :: "Error option"

text \<open>
  The libraries the validation stage calls are parameters: \<open>trim\<close> is
  \<open>String.prototype.trim\<close>, \<open>loadAll\<close> is \<open>yaml.loadAll\<close> (\<open>None\<close> when it throws) and
  \<open>valid\<close> is \<open>validator.validate(item, schema).valid\<close>. Logging is left out.
\<close>

record 'a Libraries =
  trim :: "string \<Rightarrow> string"
  loadAll :: "string \<Rightarrow> 'a list option"
  valid :: "'a \<Rightarrow> bool"

text \<open>The loop over \<open>res.data\<close>: the first invalid item throws.\<close>

fun validate_items :: "('a \<Rightarrow> bool) \<Rightarrow> string \<Rightarrow> 'a list \<Rightarrow> Error option" where
  "validate_items is_valid fname [] = None"
| "validate_items is_valid fname (item # items) =
     (if \<not> is_valid item then Some (FormattingErrors fname)
      else validate_items is_valid fname items)"

definition validateConfigFile ::
  "'a Libraries \<Rightarrow> ConfigFileChange \<Rightarrow> 'a ValidationResult" where
  "validateConfigFile lib fileChange =
     (let parsed =
            (case fc_content fileChange of
               None \<Rightarrow> Some []
             | Some c \<Rightarrow> if trim lib c = [] then Some [] else loadAll lib c)
      in case parsed of
           None \<Rightarrow>
             \<lparr>vr_filename = fc_filename fileChange, vr_data = None,
              vr_error = Some YAMLException\<rparr>
         | Some items \<Rightarrow>
             (case validate_items (valid lib) (fc_filename fileChange) items of
                Some err \<Rightarrow>
                  \<lparr>vr_filename = fc_filename fileChange, vr_data = None,
                   vr_error = Some err\<rparr>
              | None \<Rightarrow>
                  \<lparr>vr_filename = fc_filename fileChange, vr_data = Some items,
                   vr_error = None\<rparr>))"

section \<open>The reconciliation of \<open>onInit\<close>\<close>

text \<open>\<open>getIndexOfId\<close>: the index of the first item with the identity, or -1.\<close>

fun getIndexOfId_from :: "('a \<Rightarrow> string) \<Rightarrow> string \<Rightarrow> 'a list \<Rightarrow> int \<Rightarrow> int" where
  "getIndexOfId_from getId existingId [] index = - 1"
| "getIndexOfId_from getId existingId (item # arr) index =
     (if getId item = existingId then index
      else getIndexOfId_from getId existingId arr (index + 1))"

definition getIndexOfId :: "('a \<Rightarrow> string) \<Rightarrow> string \<Rightarrow> 'a list \<Rightarrow> int" where
  "getIndexOfId getId existingId arr = getIndexOfId_from getId existingId arr 0"

text \<open>
  The first loop of \<open>updateConfigFile$\<close>, over \<open>stateArrayForFile\<close>: a remove action for
  every existing set whose identity is not found in the new data.
\<close>

fun vanished_actions ::
  "('a \<Rightarrow> string) \<Rightarrow> 'a list \<Rightarrow> 'a ConfigSet list \<Rightarrow> 'a ConfigSetAction list" where
  "vanished_actions getId new_data [] = []"
| "vanished_actions getId new_data (existingSet # others) =
     (let existingId = getId (obj existingSet) in
      if getIndexOfId getId existingId new_data = - 1
      then Remove existingId # vanished_actions getId new_data others
      else vanished_actions getId new_data others)"

text \<open>
  The body of the second loop, for one \<open>newItem\<close>. \<open>existingSet = state[id]\<close> is a
  property read. An inherited value is truthy and has no property \<open>obj\<close>, so
  \<open>equal(undefined, newItem)\<close> is false and the update branch is taken.
\<close>

definition item_actions ::
  "('a \<Rightarrow> string) \<Rightarrow> 'a State \<Rightarrow> string \<Rightarrow> 'a \<Rightarrow> 'a ConfigSetAction list" where
  "item_actions getId st fname newItem =
     (let ident = getId newItem in
      case property_get st ident of
        Undefined \<Rightarrow> [Add ident \<lparr>filename = fname, obj = newItem\<rparr>]
      | PrototypeValue p \<Rightarrow> [Update ident \<lparr>filename = fname, obj = newItem\<rparr>]
      | OwnValue existingSet \<Rightarrow>
          if obj existingSet \<noteq> newItem
          then [Update ident \<lparr>filename = fname, obj = newItem\<rparr>]
          else if filename existingSet \<noteq> fname
          then [Moved ident (existingSet\<lparr>filename := fname\<rparr>)]
          else [])"

fun new_item_actions ::
  "('a \<Rightarrow> string) \<Rightarrow> 'a State \<Rightarrow> string \<Rightarrow> 'a list \<Rightarrow> 'a ConfigSetAction list" where
  "new_item_actions getId st fname [] = []"
| "new_item_actions getId st fname (newItem # others) =
     item_actions getId st fname newItem @ new_item_actions getId st fname others"

text \<open>
  The \<open>map\<close> of \<open>updateConfigFile$\<close>: all actions of one validated file, computed from
  the state that \<open>withLatestFrom\<close> delivered with the event.
\<close>

definition update_file_actions ::
  "('a \<Rightarrow> string) \<Rightarrow> 'a State \<Rightarrow> string \<Rightarrow> 'a list \<Rightarrow> 'a ConfigSetAction list" where
  "update_file_actions getId st fname new_data =
     (let stateArray = Object_values st;
          stateArrayForFile = filter (\<lambda>cfgSet. filename cfgSet = fname) stateArray
      in vanished_actions getId new_data stateArrayForFile
         @ new_item_actions getId st fname new_data)"

text \<open>The \<open>map\<close> of \<open>removeConfigFile$\<close>.\<close>

definition remove_file_actions ::
  "('a \<Rightarrow> string) \<Rightarrow> 'a State \<Rightarrow> string \<Rightarrow> 'a ConfigSetAction list" where
  "remove_file_actions getId st fname =
     (let stateArray = Object_values st;
          stateArrayForFile = filter (\<lambda>cfgSet. filename cfgSet = fname) stateArray
      in map (\<lambda>existingSet. Remove (getId (obj existingSet))) stateArrayForFile)"

text \<open>
  The \<open>tap\<close> of \<open>configFileChanges$\<close>: the store is updated, then the action is pushed
  on \<open>_changes$\<close>.
\<close>

fun tap_action :: "('a \<Rightarrow> string) \<Rightarrow> 'a ConfigSetAction \<Rightarrow> 'a Watcher \<Rightarrow> 'a Watcher" where
  "tap_action getId (Add ident item) w =
     changes_next (Add ident item) (snd (addOrUpdateSet getId (Some item) w))"
| "tap_action getId (Update ident item) w =
     changes_next (Update ident item) (snd (addOrUpdateSet getId (Some item) w))"
| "tap_action getId (Moved ident item) w =
     changes_next (Moved ident item) (snd (addOrUpdateSet getId (Some item) w))"
| "tap_action getId (Remove ident) w =
     changes_next (Remove ident) (snd (removeSet ident w))"

text \<open>\<open>mergeMap(actions => actions)\<close> hands the actions to the \<open>tap\<close> one after the other.\<close>

fun tap_all :: "('a \<Rightarrow> string) \<Rightarrow> 'a ConfigSetAction list \<Rightarrow> 'a Watcher \<Rightarrow> 'a Watcher" where
  "tap_all getId [] w = w"
| "tap_all getId (a # actions) w = tap_all getId actions (tap_action getId a w)"

text \<open>
  One event of \<open>fileChange$\<close> through the whole pipeline: the actions that the two
  merged branches compute for it, from the state at the arrival of the event. A
  validation result with an error is filtered out; one without error has its data.
\<close>

definition fileChange_actions ::
  "('a \<Rightarrow> string) \<Rightarrow> 'a Libraries \<Rightarrow> 'a State \<Rightarrow> ConfigFileChange
     \<Rightarrow> 'a ConfigSetAction list" where
  "fileChange_actions getId lib st fileChange =
     (if fc_type fileChange = TypeUpdate \<or> fc_type fileChange = TypeAdd
      then
        (let validationResult = validateConfigFile lib fileChange in
         case vr_error validationResult of
           Some err \<Rightarrow> []
         | None \<Rightarrow>
             (case vr_data validationResult of
                Some new_data \<Rightarrow>
                  update_file_actions getId st (vr_filename validationResult) new_data
              | None \<Rightarrow> []))
      else remove_file_actions getId st (fc_filename fileChange))"

definition onFileChange ::
  "('a \<Rightarrow> string) \<Rightarrow> 'a Libraries \<Rightarrow> ConfigFileChange \<Rightarrow> 'a Watcher \<Rightarrow> 'a Watcher" where
  "onFileChange getId lib fileChange w =
     tap_all getId (fileChange_actions getId lib (state w) fileChange) w"

text \<open>
  The two kinds of input the reconciliation sees after validation: a validated item list
  of a file, and the removal of a file.
\<close>

datatype 'a FileEvent = Validated string "'a list" | Removed string

fun file_event_actions ::
  "('a \<Rightarrow> string) \<Rightarrow> 'a State \<Rightarrow> 'a FileEvent \<Rightarrow> 'a ConfigSetAction list" where
  "file_event_actions getId st (Validated fname new_data) =
     update_file_actions getId st fname new_data"
| "file_event_actions getId st (Removed fname) = remove_file_actions getId st fname"

definition process_event :: "('a \<Rightarrow> string) \<Rightarrow> 'a FileEvent \<Rightarrow> 'a Watcher \<Rightarrow> 'a Watcher" where
  "process_event getId ev w = tap_all getId (file_event_actions getId (state w) ev) w"

fun process_events :: "('a \<Rightarrow> string) \<Rightarrow> 'a FileEvent list \<Rightarrow> 'a Watcher \<Rightarrow> 'a Watcher" where
  "process_events getId [] w = w"
| "process_events getId (ev # evs) w = process_events getId evs (process_event getId ev w)"

section \<open>The ConfigMap driver: \<open>ConfigMapWatcher.onInit\<close>\<close>

text \<open>
  \<open>_fileStore\<close> is a \<open>Map<string, string>\<close>: an association list in insertion order
  (\<open>set\<close> on a known key keeps its place). \<open>data\<close> and \<open>binaryData\<close> of the
  \<open>V1ConfigMap\<close> are optional objects, given as their own properties in \<open>for ... in\<close>
  order. The base64 decoding of a \<open>binaryData\<close> value is the parameter \<open>decode\<close>.
\<close>

type_synonym FileStore = "(string \<times> string) list"

record V1ConfigMap =
  cm_data :: "(string \<times> string) list option"
  cm_binaryData :: "(string \<times> string) list option"

text \<open>The operations of the \<open>Map\<close>.\<close>

abbreviation Map_has :: "FileStore \<Rightarrow> string \<Rightarrow> bool" where
  "Map_has fileStore k \<equiv> hasOwnProperty fileStore k"

abbreviation Map_get :: "FileStore \<Rightarrow> string \<Rightarrow> string option" where
  "Map_get fileStore k \<equiv> map_of fileStore k"

abbreviation Map_set :: "FileStore \<Rightarrow> string \<Rightarrow> string \<Rightarrow> FileStore" where
  "Map_set fileStore k v \<equiv> AList.update k v fileStore"

abbreviation Map_delete :: "FileStore \<Rightarrow> string \<Rightarrow> FileStore" where
  "Map_delete fileStore k \<equiv> AList.delete k fileStore"

text \<open>
  The loop \<open>for (const filename in data)\<close>, which pushes add and update changes. The
  source writes it twice, for \<open>data\<close> (the content is the value itself) and for
  \<open>binaryData\<close> (the content is the decoded value).
\<close>

fun present_loop ::
  "(string \<Rightarrow> string) \<Rightarrow> (string \<times> string) list
     \<Rightarrow> ConfigFileChange list \<times> FileStore \<Rightarrow> ConfigFileChange list \<times> FileStore" where
  "present_loop decode [] (fileChanges, fileStore) = (fileChanges, fileStore)"
| "present_loop decode ((fname, raw) # props) (fileChanges, fileStore) =
     (let content = decode raw in
      if \<not> Map_has fileStore fname
      then present_loop decode props
             (fileChanges @ [\<lparr>fc_type = TypeAdd, fc_filename = fname, fc_content = Some content\<rparr>],
              Map_set fileStore fname content)
      else
        (let oldContent = Map_get fileStore fname in
         if oldContent \<noteq> Some content
         then present_loop decode props
                (fileChanges @
                   [\<lparr>fc_type = TypeUpdate, fc_filename = fname, fc_content = Some content\<rparr>],
                 Map_set fileStore fname content)
         else present_loop decode props (fileChanges, fileStore)))"

text \<open>
  The loop \<open>for (const [filename, _] of this._fileStore)\<close>: the entries are visited
  in order, and deleting the visited entry does not disturb the iteration.
\<close>

fun absent_loop ::
  "(string \<times> string) list \<Rightarrow> (string \<times> string) list
     \<Rightarrow> ConfigFileChange list \<times> FileStore \<Rightarrow> ConfigFileChange list \<times> FileStore" where
  "absent_loop [] props (fileChanges, fileStore) = (fileChanges, fileStore)"
| "absent_loop ((fname, c) # entries) props (fileChanges, fileStore) =
     (if \<not> hasOwnProperty props fname
      then absent_loop entries props
             (fileChanges @ [\<lparr>fc_type = TypeRemove, fc_filename = fname, fc_content = None\<rparr>],
              Map_delete fileStore fname)
      else absent_loop entries props (fileChanges, fileStore))"

text \<open>
  One of the two blocks of the \<open>map\<close>, guarded by
  \<open>data && Object.keys(data).length > 0\<close>.
\<close>

definition snapshot_block ::
  "(string \<Rightarrow> string) \<Rightarrow> (string \<times> string) list option
     \<Rightarrow> ConfigFileChange list \<times> FileStore \<Rightarrow> ConfigFileChange list \<times> FileStore" where
  "snapshot_block decode block acc =
     (case block of
        None \<Rightarrow> acc
      | Some props \<Rightarrow>
          if length props > 0
          then (let acc1 = present_loop decode props acc
                in absent_loop (snd acc1) props acc1)
          else acc)"

text \<open>
  The \<open>map\<close> of \<open>addedModifiedConfigMap$\<close> for an event of phase ADDED or MODIFIED:
  the changes it returns and the file store it leaves.
\<close>

definition addedModifiedConfigMap ::
  "(string \<Rightarrow> string) \<Rightarrow> V1ConfigMap option \<Rightarrow> FileStore
     \<Rightarrow> ConfigFileChange list \<times> FileStore" where
  "addedModifiedConfigMap decode apiObj fileStore =
     (let data = (case apiObj of None \<Rightarrow> None | Some cm \<Rightarrow> cm_data cm);
          acc1 = snapshot_block (\<lambda>c. c) data ([], fileStore);
          binaryData = (case apiObj of None \<Rightarrow> None | Some cm \<Rightarrow> cm_binaryData cm)
      in snapshot_block decode binaryData acc1)"

section \<open>Notions used to state the properties\<close>

text \<open>
  A state object as the watcher builds it: one property per identity, stored under the
  identity of its item.
\<close>

definition wf_state :: "('a \<Rightarrow> string) \<Rightarrow> 'a State \<Rightarrow> bool" where
  "wf_state getId st =
     (distinct (map fst st) \<and> (\<forall>p \<in> set st. getId (obj (snd p)) = fst p))"

text \<open>The state as a map from identities, and the effect of a tapped action on it.\<close>

fun apply_map ::
  "('a \<Rightarrow> string) \<Rightarrow> 'a ConfigSetAction \<Rightarrow> (string \<rightharpoonup> 'a ConfigSet)
     \<Rightarrow> (string \<rightharpoonup> 'a ConfigSet)" where
  "apply_map getId (Add ident item) m = m(getId (obj item) \<mapsto> item)"
| "apply_map getId (Update ident item) m = m(getId (obj item) \<mapsto> item)"
| "apply_map getId (Moved ident item) m = m(getId (obj item) \<mapsto> item)"
| "apply_map getId (Remove ident) m = (if ident = [] then m else m(ident := None))"

text \<open>The identity \<open>k\<close> is tracked in the state under the file \<open>fname\<close>.\<close>

definition filed_under :: "'a State \<Rightarrow> string \<Rightarrow> string \<Rightarrow> bool" where
  "filed_under st fname k =
     (case map_of st k of Some cs \<Rightarrow> filename cs = fname | None \<Rightarrow> False)"

text \<open>
  The item that a validated list declares under the identity \<open>k\<close>: the last one, as the
  items are validated in order.
\<close>

fun declared_item :: "('a \<Rightarrow> string) \<Rightarrow> 'a list \<Rightarrow> string \<Rightarrow> 'a option" where
  "declared_item getId [] k = None"
| "declared_item getId (n # items) k =
     (case declared_item getId items k of
        Some n' \<Rightarrow> Some n'
      | None \<Rightarrow> if getId n = k then Some n else None)"

text \<open>The actions pushed on \<open>_changes$\<close> so far, in order.\<close>

fun emitted_of :: "'a effect list \<Rightarrow> 'a ConfigSetAction list" where
  "emitted_of [] = []"
| "emitted_of (ChangesNext a # es) = a # emitted_of es"
| "emitted_of (StateNext s # es) = emitted_of es"

definition emitted :: "'a Watcher \<Rightarrow> 'a ConfigSetAction list" where
  "emitted w = emitted_of (trace w)"

text \<open>The identities of a validated list are pairwise distinct.\<close>

fun distinct_identities :: "('a \<Rightarrow> string) \<Rightarrow> 'a FileEvent \<Rightarrow> bool" where
  "distinct_identities getId (Validated fname items) = distinct (map getId items)"
| "distinct_identities getId (Removed fname) = True"

text \<open>... and none of them is the empty string.\<close>

fun proper_identities :: "('a \<Rightarrow> string) \<Rightarrow> 'a FileEvent \<Rightarrow> bool" where
  "proper_identities getId (Validated fname items) =
     (distinct (map getId items) \<and> [] \<notin> getId ` set items)"
| "proper_identities getId (Removed fname) = True"

subsection \<open>The sources, in the words of the specification\<close>

text \<open>
  The files that currently declare items, with their last validated lists, the most
  recently validated file first: a validated list replaces the earlier list of its
  file, a removal drops the file.
\<close>

fun track_file :: "'a FileEvent \<Rightarrow> (string \<times> 'a list) list \<Rightarrow> (string \<times> 'a list) list" where
  "track_file (Validated fname items) files =
     (fname, items) # filter (\<lambda>p. fst p \<noteq> fname) files"
| "track_file (Removed fname) files = filter (\<lambda>p. fst p \<noteq> fname) files"

fun tracked_files ::
  "'a FileEvent list \<Rightarrow> (string \<times> 'a list) list \<Rightarrow> (string \<times> 'a list) list" where
  "tracked_files [] files = files"
| "tracked_files (ev # evs) files = tracked_files evs (track_file ev files)"

text \<open>
  The item most recently validated under the identity \<open>k\<close> among the files that still
  declare \<open>k\<close>, with that file.
\<close>

fun most_recently_validated ::
  "('a \<Rightarrow> string) \<Rightarrow> (string \<times> 'a list) list \<Rightarrow> string \<Rightarrow> 'a ConfigSet option" where
  "most_recently_validated getId [] k = None"
| "most_recently_validated getId ((fname, items) # files) k =
     (case declared_item getId items k of
        Some n \<Rightarrow> Some \<lparr>filename = fname, obj = n\<rparr>
      | None \<Rightarrow> most_recently_validated getId files k)"

definition state_reflects_sources ::
  "('a \<Rightarrow> string) \<Rightarrow> 'a State \<Rightarrow> (string \<times> 'a list) list \<Rightarrow> bool" where
  "state_reflects_sources getId st files =
     list_all (\<lambda>p. most_recently_validated getId files (fst p) = Some (snd p)) st"

subsection \<open>Commit order\<close>

text \<open>The actions for which the \<open>tap\<close> pushes a new state.\<close>

fun mutates :: "'a State \<Rightarrow> 'a ConfigSetAction \<Rightarrow> bool" where
  "mutates st (Remove ident) = (ident \<noteq> [] \<and> property_get st ident \<noteq> Undefined)"
| "mutates st (Add ident item) = True"
| "mutates st (Update ident item) = True"
| "mutates st (Moved ident item) = True"

text \<open>
  An action is committed together with its mutation: the \<open>tap\<close> pushes the mutated
  state, then the action, and nothing else.
\<close>

definition committed_with_mutation ::
  "('a \<Rightarrow> string) \<Rightarrow> 'a ConfigSetAction \<Rightarrow> 'a Watcher \<Rightarrow> bool" where
  "committed_with_mutation getId a w =
     (trace (tap_action getId a w) =
        trace w @ [StateNext (state (tap_action getId a w)), ChangesNext a])"

text \<open>In a trace, every pushed state is followed at once by an emitted action.\<close>

fun commits_paired :: "'a effect list \<Rightarrow> bool" where
  "commits_paired [] = True"
| "commits_paired (ChangesNext a # es) = commits_paired es"
| "commits_paired (StateNext s # ChangesNext a # es) = commits_paired es"
| "commits_paired (StateNext s # es) = False"

subsection \<open>The notifications a snapshot calls for, in the words of the specification\<close>

text \<open>The files of a resource snapshot, with their contents.\<close>

definition snapshot_files ::
  "(string \<Rightarrow> string) \<Rightarrow> V1ConfigMap option \<Rightarrow> (string \<times> string) list" where
  "snapshot_files decode apiObj =
     (case apiObj of
        None \<Rightarrow> []
      | Some cm \<Rightarrow>
          (case cm_data cm of None \<Rightarrow> [] | Some d \<Rightarrow> d)
          @ (case cm_binaryData cm of
               None \<Rightarrow> []
             | Some b \<Rightarrow> map (\<lambda>p. (fst p, decode (snd p))) b))"

text \<open>
  One add per new filename, one update per filename with changed content, one remove
  per known filename that the snapshot lacks.
\<close>

definition expected_change :: "FileStore \<Rightarrow> string \<times> string \<Rightarrow> ConfigFileChange list" where
  "expected_change previous p =
     (if \<not> hasOwnProperty previous (fst p)
      then [\<lparr>fc_type = TypeAdd, fc_filename = fst p, fc_content = Some (snd p)\<rparr>]
      else if map_of previous (fst p) \<noteq> Some (snd p)
      then [\<lparr>fc_type = TypeUpdate, fc_filename = fst p, fc_content = Some (snd p)\<rparr>]
      else [])"

definition expected_removal ::
  "(string \<times> string) list \<Rightarrow> string \<times> string \<Rightarrow> ConfigFileChange list" where
  "expected_removal snapshot p =
     (if \<not> hasOwnProperty snapshot (fst p)
      then [\<lparr>fc_type = TypeRemove, fc_filename = fst p, fc_content = None\<rparr>]
      else [])"

definition expected_changes ::
  "FileStore \<Rightarrow> (string \<times> string) list \<Rightarrow> ConfigFileChange list" where
  "expected_changes previous snapshot =
     concat (map (expected_change previous) snapshot)
     @ concat (map (expected_removal snapshot) previous)"

section \<open>Properties of the state object\<close>

lemma mset_Object_entries: "mset (Object_entries xs) = mset xs"
  by (simp add: Object_entries_def)

lemma set_Object_entries: "set (Object_entries xs) = set xs"
  using mset_Object_entries [of xs] by (metis set_mset_mset)

lemma length_Object_entries: "length (Object_entries xs) = length xs"
  using mset_Object_entries [of xs] by (metis size_mset)

lemma distinct_Object_entries:
  "distinct (map fst (Object_entries xs)) = distinct (map fst xs)"
proof -
  have "mset (map fst (Object_entries xs)) = mset (map fst xs)"
    by (simp add: mset_Object_entries)
  then show ?thesis by (rule mset_eq_imp_distinct_iff)
qed

lemma map_of_Object_entries:
  "distinct (map fst xs) \<Longrightarrow> map_of (Object_entries xs) = map_of xs"
  by (simp add: map_of_inject_set distinct_Object_entries set_Object_entries)

lemma set_Object_values: "set (Object_values xs) = snd ` set xs"
  by (simp add: Object_values_def set_Object_entries)

lemma getIndexOfId_from_ge: "0 \<le> i \<Longrightarrow> getIndexOfId_from getId k arr i = - 1 \<longleftrightarrow> k \<notin> getId ` set arr"
  by (induction arr arbitrary: i) auto

lemma getIndexOfId_not_found: "getIndexOfId getId k arr = - 1 \<longleftrightarrow> k \<notin> getId ` set arr"
  by (simp add: getIndexOfId_def getIndexOfId_from_ge)

lemma vanished_actions_eq:
  "vanished_actions getId d css =
     map (\<lambda>cs. Remove (getId (obj cs))) (filter (\<lambda>cs. getId (obj cs) \<notin> getId ` set d) css)"
  by (induction css) (simp_all add: getIndexOfId_not_found Let_def)

lemma state_addOrUpdateSet:
  "state (snd (addOrUpdateSet getId (Some cs) w)) = spread_with (state w) (getId (obj cs)) cs"
  by (simp add: addOrUpdateSet_def state_next_def Let_def)

lemma map_of_spread_with:
  "distinct (map fst st) \<Longrightarrow> map_of (spread_with st k v) = (map_of st)(k \<mapsto> v)"
  by (simp add: spread_with_def update_conv' map_of_Object_entries)

lemma map_of_rest_without:
  "distinct (map fst st) \<Longrightarrow> map_of (rest_without st k) = (map_of st)(k := None)"
  by (simp add: rest_without_def delete_conv' map_of_Object_entries)

lemma in_set_AList_update:
  "p \<in> set (AList.update k v al) \<Longrightarrow> p = (k, v) \<or> p \<in> set al"
  by (induction al) (auto split: if_splits)

lemma wf_state_spread_with:
  assumes "wf_state getId st" "getId (obj cs) = k"
  shows "wf_state getId (spread_with st k cs)"
proof -
  have d: "distinct (map fst (spread_with st k cs))"
    using assms(1) by (simp add: spread_with_def wf_state_def distinct_update distinct_Object_entries)
  have "\<And>p. p \<in> set (AList.update k cs (Object_entries st)) \<Longrightarrow> p = (k, cs) \<or> p \<in> set st"
    using in_set_AList_update [of _ k cs "Object_entries st"] by (auto simp: set_Object_entries)
  then have "\<forall>p \<in> set (spread_with st k cs). getId (obj (snd p)) = fst p"
    using assms by (fastforce simp: wf_state_def spread_with_def)
  with d show ?thesis by (simp add: wf_state_def)
qed

lemma wf_state_rest_without:
  assumes "wf_state getId st"
  shows "wf_state getId (rest_without st k)"
  using assms
  by (auto simp: wf_state_def rest_without_def distinct_delete distinct_Object_entries
      AList.delete_eq set_Object_entries distinct_map_filter)

lemma state_removeSet:
  "state (snd (removeSet ident w)) =
     (if ident \<noteq> [] \<and> property_get (state w) ident \<noteq> Undefined
      then rest_without (state w) ident else state w)"
  by (simp add: removeSet_def state_next_def Let_def)

lemma property_get_Undefined_not_own:
  "property_get st k = Undefined \<Longrightarrow> map_of st k = None"
  by (simp add: property_get_def split: option.splits)

lemma state_changes_next [simp]: "state (changes_next a w) = state w"
  by (simp add: changes_next_def)

lemma wf_state_tap_action:
  "wf_state getId (state w) \<Longrightarrow> wf_state getId (state (tap_action getId a w))"
  by (cases a) (simp_all add: state_addOrUpdateSet state_removeSet wf_state_spread_with
      wf_state_rest_without)

lemma map_of_tap_action:
  assumes "wf_state getId (state w)"
  shows "map_of (state (tap_action getId a w)) = apply_map getId a (map_of (state w))"
proof -
  have d: "distinct (map fst (state w))" using assms by (simp add: wf_state_def)
  show ?thesis
  proof (cases a)
    case (Remove k)
    then show ?thesis
      using d property_get_Undefined_not_own [of "state w" k]
      by (auto simp: state_removeSet map_of_rest_without fun_eq_iff)
  qed (simp_all add: state_addOrUpdateSet map_of_spread_with d)
qed

lemma wf_state_tap_all:
  "wf_state getId (state w) \<Longrightarrow> wf_state getId (state (tap_all getId as w))"
  by (induction as arbitrary: w) (simp_all add: wf_state_tap_action)

lemma map_of_tap_all:
  "wf_state getId (state w) \<Longrightarrow>
     map_of (state (tap_all getId as w)) = fold (apply_map getId) as (map_of (state w))"
  by (induction as arbitrary: w) (simp_all add: wf_state_tap_action map_of_tap_action)

lemma tap_all_append:
  "tap_all getId (as @ bs) w = tap_all getId bs (tap_all getId as w)"
  by (induction as arbitrary: w) simp_all


lemma fold_apply_map_Remove:
  "fold (apply_map getId) (map Remove ids) m =
     (\<lambda>k. if k \<in> set ids \<and> k \<noteq> [] then None else m k)"
  by (induction ids arbitrary: m) (auto simp: fun_eq_iff)

lemma item_actions_Nil_iff:
  "item_actions getId st fname n = [] \<longleftrightarrow>
     map_of st (getId n) = Some \<lparr>filename = fname, obj = n\<rparr>"
proof (cases "map_of st (getId n)")
  case None
  then show ?thesis by (simp add: item_actions_def property_get_def Let_def)
next
  case (Some cs)
  then show ?thesis
    by (cases cs) (simp add: item_actions_def property_get_def Let_def)
qed

lemma fold_apply_map_item_actions:
  "fold (apply_map getId) (item_actions getId st fname n) m =
     (if item_actions getId st fname n = [] then m
      else m(getId n \<mapsto> \<lparr>filename = fname, obj = n\<rparr>))"
proof (cases "map_of st (getId n)")
  case None
  then show ?thesis by (simp add: item_actions_def property_get_def Let_def)
next
  case (Some cs)
  then show ?thesis
    by (cases cs) (simp add: item_actions_def property_get_def Let_def)
qed

lemma declared_item_None_iff:
  "declared_item getId items k = None \<longleftrightarrow> k \<notin> getId ` set items"
  by (induction items) (auto split: option.splits)

lemma declared_item_Some:
  "declared_item getId items k = Some n \<Longrightarrow> n \<in> set items \<and> getId n = k"
  by (induction items) (auto split: option.splits if_splits)

lemma fold_apply_map_new_item_actions:
  assumes "distinct (map getId items)"
    and "\<forall>n \<in> set items. item_actions getId st fname n = [] \<longrightarrow>
           m (getId n) = Some \<lparr>filename = fname, obj = n\<rparr>"
  shows "fold (apply_map getId) (new_item_actions getId st fname items) m k =
     (case declared_item getId items k of
             Some n \<Rightarrow> Some \<lparr>filename = fname, obj = n\<rparr>
           | None \<Rightarrow> m k)"
  using assms
proof (induction items arbitrary: m)
  case Nil
  then show ?case by simp
next
  case (Cons n items)
  let ?m' = "fold (apply_map getId) (item_actions getId st fname n) m"
  have m': "?m' = m(getId n \<mapsto> \<lparr>filename = fname, obj = n\<rparr>)"
  proof (cases "item_actions getId st fname n = []")
    case True
    then have "m (getId n) = Some \<lparr>filename = fname, obj = n\<rparr>"
      using Cons.prems(2) by simp
    then show ?thesis using True by (auto simp: fun_eq_iff)
  next
    case False
    then show ?thesis by (simp add: fold_apply_map_item_actions)
  qed
  have fresh: "getId n \<notin> getId ` set items" using Cons.prems(1) by simp
  have keep: "\<forall>x \<in> set items. item_actions getId st fname x = [] \<longrightarrow>
           ?m' (getId x) = Some \<lparr>filename = fname, obj = x\<rparr>"
  proof (intro ballI impI)
    fix x assume x: "x \<in> set items" "item_actions getId st fname x = []"
    then have "getId x \<noteq> getId n" using fresh by (metis imageI)
    moreover have "m (getId x) = Some \<lparr>filename = fname, obj = x\<rparr>"
      using Cons.prems(2) x by simp
    ultimately show "?m' (getId x) = Some \<lparr>filename = fname, obj = x\<rparr>"
      by (simp add: m')
  qed
  have "distinct (map getId items)" using Cons.prems(1) by simp
  from this keep have IH: "fold (apply_map getId) (new_item_actions getId st fname items) ?m' k =
     (case declared_item getId items k of
             Some n \<Rightarrow> Some \<lparr>filename = fname, obj = n\<rparr>
           | None \<Rightarrow> ?m' k)"
    by (rule Cons.IH)
  show ?case
  proof (cases "declared_item getId items k")
    case None
    then show ?thesis using IH by (simp add: m')
  next
    case (Some n')
    then show ?thesis using IH by simp
  qed
qed

lemma vanished_ids:
  assumes "wf_state getId st"
  shows "set (map (\<lambda>cs. getId (obj cs))
           (filter (\<lambda>cs. getId (obj cs) \<notin> getId ` set items)
              (filter (\<lambda>cs. filename cs = fname) (Object_values st))))
         = {k. filed_under st fname k \<and> k \<notin> getId ` set items}"
    (is "?L = ?R")
proof -
  have d: "distinct (map fst st)" and ids: "\<forall>p \<in> set st. getId (obj (snd p)) = fst p"
    using assms by (simp_all add: wf_state_def)
  have mem: "\<And>k cs. map_of st k = Some cs \<longleftrightarrow> (k, cs) \<in> set st"
    using d by simp
  have "k \<in> ?L \<longleftrightarrow> k \<in> ?R" for k
  proof
    assume "k \<in> ?L"
    then obtain cs where cs: "cs \<in> snd ` set st" "filename cs = fname"
        "getId (obj cs) \<notin> getId ` set items" "k = getId (obj cs)"
      by (auto simp: set_Object_values)
    then obtain k' where k': "(k', cs) \<in> set st" by auto
    with ids have "getId (obj cs) = k'" by fastforce
    with k' cs have "map_of st k = Some cs" by (simp add: mem)
    with cs show "k \<in> ?R" by (simp add: filed_under_def)
  next
    assume "k \<in> ?R"
    then obtain cs where cs: "map_of st k = Some cs" "filename cs = fname"
        and k: "k \<notin> getId ` set items"
      by (auto simp: filed_under_def split: option.splits)
    then have in_st: "(k, cs) \<in> set st" by (simp add: mem)
    with ids have "getId (obj cs) = k" by fastforce
    moreover have "cs \<in> snd ` set st" using in_st by force
    ultimately show "k \<in> ?L" using cs k by (auto simp: set_Object_values)
  qed
  then show ?thesis by blast
qed


section \<open>One file event\<close>

lemma emitted_of_append: "emitted_of (xs @ ys) = emitted_of xs @ emitted_of ys"
  by (induction xs rule: emitted_of.induct) simp_all

lemma trace_tap_action:
  "trace (tap_action getId a w) =
     trace w @ (if mutates (state w) a then [StateNext (state (tap_action getId a w))] else [])
       @ [ChangesNext a]"
  by (cases a)
    (simp_all add: addOrUpdateSet_def removeSet_def state_next_def changes_next_def Let_def)

lemma state_tap_action_unmutated:
  "\<not> mutates (state w) a \<Longrightarrow> state (tap_action getId a w) = state w"
  by (cases a) (auto simp: state_removeSet)

lemma emitted_tap_action: "emitted (tap_action getId a w) = emitted w @ [a]"
  by (simp add: emitted_def trace_tap_action emitted_of_append)

lemma emitted_tap_all: "emitted (tap_all getId as w) = emitted w @ as"
  by (induction as arbitrary: w) (simp_all add: emitted_tap_action)

lemma emitted_process_event:
  "emitted (process_event getId ev w) = emitted w @ file_event_actions getId (state w) ev"
  by (simp add: process_event_def emitted_tap_all)

lemma remove_file_as_update:
  "remove_file_actions getId st fname = update_file_actions getId st fname []"
  by (simp add: remove_file_actions_def update_file_actions_def vanished_actions_eq)

lemma map_of_update_file:
  assumes wf: "wf_state getId (state w)" and dist: "distinct (map getId items)"
  shows "map_of (state (tap_all getId (update_file_actions getId (state w) fname items) w)) k =
     (case declared_item getId items k of
        Some n \<Rightarrow> Some \<lparr>filename = fname, obj = n\<rparr>
      | None \<Rightarrow> if k \<noteq> [] \<and> filed_under (state w) fname k then None
                else map_of (state w) k)"
proof -
  let ?st = "state w"
  let ?ids = "map (\<lambda>cs. getId (obj cs))
           (filter (\<lambda>cs. getId (obj cs) \<notin> getId ` set items)
              (filter (\<lambda>cs. filename cs = fname) (Object_values ?st)))"
  let ?m1 = "fold (apply_map getId) (map Remove ?ids) (map_of ?st)"
  have acts: "update_file_actions getId ?st fname items =
      map Remove ?ids @ new_item_actions getId ?st fname items"
    by (simp add: update_file_actions_def vanished_actions_eq Let_def comp_def)
  have ids: "set ?ids = {k. filed_under ?st fname k \<and> k \<notin> getId ` set items}"
    using wf by (rule vanished_ids)
  have m1: "?m1 = (\<lambda>k. if k \<in> set ?ids \<and> k \<noteq> [] then None else map_of ?st k)"
    by (rule fold_apply_map_Remove)
  have keep: "\<forall>n \<in> set items. item_actions getId ?st fname n = [] \<longrightarrow>
           ?m1 (getId n) = Some \<lparr>filename = fname, obj = n\<rparr>"
  proof (intro ballI impI)
    fix n assume n: "n \<in> set items" "item_actions getId ?st fname n = []"
    then have "getId n \<notin> set ?ids" unfolding ids by simp
    then show "?m1 (getId n) = Some \<lparr>filename = fname, obj = n\<rparr>"
      using n(2) by (simp only: m1 item_actions_Nil_iff if_False simp_thms)
  qed
  have "map_of (state (tap_all getId (update_file_actions getId ?st fname items) w)) k =
      fold (apply_map getId) (new_item_actions getId ?st fname items) ?m1 k"
    using wf by (simp only: map_of_tap_all acts fold_append comp_def)
  also have "\<dots> = (case declared_item getId items k of
             Some n \<Rightarrow> Some \<lparr>filename = fname, obj = n\<rparr>
           | None \<Rightarrow> ?m1 k)"
    using dist keep by (rule fold_apply_map_new_item_actions)
  also have "\<dots> = (case declared_item getId items k of
             Some n \<Rightarrow> Some \<lparr>filename = fname, obj = n\<rparr>
           | None \<Rightarrow> if k \<noteq> [] \<and> filed_under ?st fname k then None
                     else map_of ?st k)"
  proof (cases "declared_item getId items k")
    case None
    then have "k \<notin> getId ` set items" by (simp add: declared_item_None_iff)
    then have "k \<in> set ?ids \<longleftrightarrow> filed_under ?st fname k" unfolding ids by simp
    then show ?thesis using None by (simp only: m1) auto
  next
    case (Some n)
    then show ?thesis by simp
  qed
  finally show ?thesis .
qed

lemma map_of_remove_file:
  assumes wf: "wf_state getId (state w)"
  shows "map_of (state (tap_all getId (remove_file_actions getId (state w) fname) w)) k =
     (if k \<noteq> [] \<and> filed_under (state w) fname k then None else map_of (state w) k)"
  using map_of_update_file [OF wf, of "[]" fname k] by (simp add: remove_file_as_update)

lemma wf_state_process_event:
  "wf_state getId (state w) \<Longrightarrow> wf_state getId (state (process_event getId ev w))"
  by (simp add: process_event_def wf_state_tap_all)


lemma identities_of_values:
  assumes "wf_state getId st"
  shows "map (\<lambda>cs. getId (obj cs)) (Object_values st) = map fst (Object_entries st)"
  using assms by (simp add: Object_values_def wf_state_def set_Object_entries)

lemma distinct_tracked_identities:
  assumes "wf_state getId st"
  shows "distinct (map (\<lambda>cs. getId (obj cs)) (filter P (Object_values st)))"
proof -
  have "distinct (map (\<lambda>cs. getId (obj cs)) (Object_values st))"
    using assms by (simp add: identities_of_values distinct_Object_entries wf_state_def)
  then show ?thesis by (rule distinct_map_filter)
qed

lemma remove_file_actions_ids:
  assumes wf: "wf_state getId st"
  shows "\<exists>ids. remove_file_actions getId st fname = map Remove ids \<and> distinct ids
           \<and> set ids = {k. filed_under st fname k}"
proof -
  let ?ids = "map (\<lambda>cs. getId (obj cs)) (filter (\<lambda>cs. filename cs = fname) (Object_values st))"
  have "remove_file_actions getId st fname = map Remove ?ids"
    by (simp add: remove_file_actions_def comp_def)
  moreover have "distinct ?ids" using wf by (rule distinct_tracked_identities)
  moreover have "set ?ids = {k. filed_under st fname k}"
    using vanished_ids [OF wf, of "[]" fname] by simp
  ultimately show ?thesis by blast
qed

lemmas object_eval =
  Object_values_def Object_entries_def array_index_def is_digit_def decimal_value_def
  digit_value_def index_rank_def hasOwnProperty_def property_get_def
  Object_prototype_keys_def spread_with_def rest_without_def

lemmas watcher_eval =
  new_watcher_def state_next_def changes_next_def addOrUpdateSet_def removeSet_def
  update_file_actions_def remove_file_actions_def item_actions_def getIndexOfId_def
  process_event_def emitted_def Let_def

lemma declared_item_member:
  "distinct (map getId items) \<Longrightarrow> n \<in> set items \<Longrightarrow>
     declared_item getId items (getId n) = Some n"
proof (induction items)
  case Nil
  then show ?case by simp
next
  case (Cons m items)
  show ?case
  proof (cases "n \<in> set items")
    case True
    then show ?thesis using Cons by simp
  next
    case False
    then have nm: "n = m" using Cons.prems(2) by simp
    have "getId m \<notin> getId ` set items" using Cons.prems(1) by simp
    then have "declared_item getId items (getId m) = None"
      by (simp add: declared_item_None_iff)
    then show ?thesis by (simp add: nm)
  qed
qed

lemma new_item_actions_Nil_iff:
  "new_item_actions getId st fname items = [] \<longleftrightarrow>
     (\<forall>n \<in> set items. item_actions getId st fname n = [])"
  by (induction items) simp_all

lemma vanished_actions_Nil_iff:
  "vanished_actions getId items css = [] \<longleftrightarrow>
     (\<forall>cs \<in> set css. getId (obj cs) \<in> getId ` set items)"
  by (simp add: vanished_actions_eq filter_empty_conv)

lemma wf_state_lookup:
  assumes "wf_state getId st" and "(k, cs) \<in> set st"
  shows "map_of st k = Some cs" and "getId (obj cs) = k"
  using assms by (auto simp: wf_state_def)

lemma filter_identity:
  "distinct ids \<Longrightarrow> filter (\<lambda>i. i = k) ids = (if k \<in> set ids then [k] else [])"
  by (induction ids) auto

lemma filter_Remove_actions:
  "filter (\<lambda>a. action_id a = k) (map Remove ids) = map Remove (filter (\<lambda>i. i = k) ids)"
  by (induction ids) simp_all

lemma filter_item_actions:
  "filter (\<lambda>a. action_id a = k) (item_actions getId st fname m) =
     (if getId m = k then item_actions getId st fname m else [])"
  by (simp add: item_actions_def Let_def split: js_property.splits)

lemma filter_new_item_actions:
  assumes "distinct (map getId items)" and "n \<in> set items"
  shows "filter (\<lambda>a. action_id a = getId n) (new_item_actions getId st fname items) =
     item_actions getId st fname n"
  using assms
proof (induction items)
  case Nil
  then show ?case by simp
next
  case (Cons m items)
  have fresh: "getId m \<notin> getId ` set items" using Cons.prems(1) by simp
  show ?case
  proof (cases "n \<in> set items")
    case True
    then have "getId m \<noteq> getId n" using fresh by (metis imageI)
    then show ?thesis using Cons True by (simp add: filter_item_actions)
  next
    case False
    then have nm: "n = m" using Cons.prems(2) by simp
    have "\<forall>x \<in> set items. getId x \<noteq> getId m" using fresh by (metis imageI)
    then have "filter (\<lambda>a. action_id a = getId m) (new_item_actions getId st fname items) = []"
      by (induction items) (simp_all add: filter_item_actions)
    then show ?thesis by (simp add: nm filter_item_actions)
  qed
qed

lemma filter_vanished_actions:
  "k \<in> getId ` set items \<Longrightarrow>
     filter (\<lambda>a. action_id a = k) (vanished_actions getId items css) = []"
  by (auto simp: vanished_actions_eq filter_empty_conv)

lemma filter_update_file_actions:
  assumes "distinct (map getId items)" and "n \<in> set items"
  shows "filter (\<lambda>a. action_id a = getId n) (update_file_actions getId st fname items) =
     item_actions getId st fname n"
  using assms
  by (simp add: update_file_actions_def filter_vanished_actions filter_new_item_actions)

lemma filter_remove_file_actions:
  assumes wf: "wf_state getId st"
  shows "filter (\<lambda>a. action_id a = k) (remove_file_actions getId st fname) =
     (if filed_under st fname k then [Remove k] else [])"
proof -
  obtain ids where ids: "remove_file_actions getId st fname = map Remove ids"
      "distinct ids" "set ids = {k. filed_under st fname k}"
    using remove_file_actions_ids [OF wf] by blast
  show ?thesis by (simp add: ids filter_Remove_actions filter_identity)
qed

text \<open>Every state that the watcher reaches from its initial state is well formed.\<close>

lemma wf_state_new_watcher: "wf_state getId (state new_watcher)"
  by (simp add: wf_state_def new_watcher_def)

lemma wf_state_process_events:
  "wf_state getId (state w) \<Longrightarrow> wf_state getId (state (process_events getId evs w))"
  by (induction evs arbitrary: w) (simp_all add: wf_state_process_event)

section \<open>The action for one item of a validated list\<close>

lemma item_actions_cases:
  "item_actions getId st fname n =
     (case map_of st (getId n) of
        None \<Rightarrow>
          if getId n \<in> set Object_prototype_keys
          then [Update (getId n) \<lparr>filename = fname, obj = n\<rparr>]
          else [Add (getId n) \<lparr>filename = fname, obj = n\<rparr>]
      | Some existing \<Rightarrow>
          if obj existing \<noteq> n then [Update (getId n) \<lparr>filename = fname, obj = n\<rparr>]
          else if filename existing \<noteq> fname
          then [Moved (getId n) \<lparr>filename = fname, obj = n\<rparr>]
          else [])"
proof (cases "map_of st (getId n)")
  case None
  then show ?thesis by (simp add: item_actions_def property_get_def Let_def)
next
  case (Some cs)
  then show ?thesis
    by (cases cs) (simp add: item_actions_def property_get_def Let_def)
qed

lemma item_actions_effect:
  assumes "wf_state getId (state w)"
  shows "map_of (state (tap_all getId (item_actions getId st fname n) w)) =
     (if item_actions getId st fname n = [] then map_of (state w)
      else (map_of (state w))(getId n \<mapsto> \<lparr>filename = fname, obj = n\<rparr>))"
  using assms by (simp add: map_of_tap_all fold_apply_map_item_actions)

text \<open>
  Claim C2. The two lemmas above give the four cases of the claim, for the state at the
  arrival of the event, and what the \<open>tap\<close> then stores. The first case fails for an
  identity that names a property of \<open>Object.prototype\<close>: \<open>state[id]\<close> is then the
  inherited value, which is truthy, and the item is reported with an update action
  although the state has no entry for it. On the initial state, a file with one item of
  identity \<open>constructor\<close> emits an update and no add.
\<close>

theorem inherited_name_reported_as_update:
  "emitted (process_event fst (Validated ''a.yaml'' [(''constructor'', 1::nat)]) new_watcher) =
     [Update ''constructor'' \<lparr>filename = ''a.yaml'', obj = (''constructor'', 1)\<rparr>]
   \<and> map_of (state (new_watcher :: (string \<times> nat) Watcher)) ''constructor'' = None"
  by (simp add: object_eval watcher_eval)

section \<open>A file that fails validation\<close>

lemma validate_items_None_iff:
  "validate_items is_valid fname items = None \<longleftrightarrow> (\<forall>i \<in> set items. is_valid i)"
  by (induction items) simp_all

lemma validate_items_error:
  "validate_items is_valid fname items = Some err \<Longrightarrow> err = FormattingErrors fname"
  by (induction items) (simp_all split: if_splits)

text \<open>
  Claim C3. An add or update event whose content is not blank and either fails to parse
  or holds an item that the schema rejects gives one validation result with the file
  name, an error and no data; no action is computed for it, and the watcher (its state
  and everything it has emitted) is left as it was.
\<close>

theorem failed_validation_is_atomic:
  assumes kind: "fc_type fileChange = TypeAdd \<or> fc_type fileChange = TypeUpdate"
    and content: "fc_content fileChange = Some c" "trim lib c \<noteq> []"
    and fails: "loadAll lib c = None
                \<or> (\<exists>items. loadAll lib c = Some items \<and> (\<exists>i \<in> set items. \<not> valid lib i))"
  shows "(\<exists>err. validateConfigFile lib fileChange =
            \<lparr>vr_filename = fc_filename fileChange, vr_data = None, vr_error = Some err\<rparr>)
       \<and> fileChange_actions getId lib (state w) fileChange = []
       \<and> onFileChange getId lib fileChange w = w"
proof -
  have res: "\<exists>err. validateConfigFile lib fileChange =
            \<lparr>vr_filename = fc_filename fileChange, vr_data = None, vr_error = Some err\<rparr>"
    using fails
  proof
    assume "loadAll lib c = None"
    then show ?thesis using content by (simp add: validateConfigFile_def)
  next
    assume "\<exists>items. loadAll lib c = Some items \<and> (\<exists>i \<in> set items. \<not> valid lib i)"
    then obtain items where items: "loadAll lib c = Some items"
        "\<exists>i \<in> set items. \<not> valid lib i"
      by blast
    then have "validate_items (valid lib) (fc_filename fileChange) items \<noteq> None"
      by (simp add: validate_items_None_iff)
    then obtain err where
      "validate_items (valid lib) (fc_filename fileChange) items = Some err"
      by blast
    then show ?thesis using content items(1) by (simp add: validateConfigFile_def)
  qed
  then obtain err where "validateConfigFile lib fileChange =
            \<lparr>vr_filename = fc_filename fileChange, vr_data = None, vr_error = Some err\<rparr>"
    by blast
  then have acts: "fileChange_actions getId lib (state w) fileChange = []"
    using kind by (auto simp: fileChange_actions_def)
  then have "onFileChange getId lib fileChange w = w" by (simp add: onFileChange_def)
  with res acts show ?thesis by blast
qed

theorem failed_validation_is_atomic_witness:
  "(fc_type \<lparr>fc_type = TypeUpdate, fc_filename = ''a.yaml'', fc_content = Some ''- id: 5''\<rparr>
      = TypeUpdate)
   \<and> fc_content \<lparr>fc_type = TypeUpdate, fc_filename = ''a.yaml'', fc_content = Some ''- id: 5''\<rparr>
      = Some ''- id: 5''
   \<and> trim \<lparr>trim = \<lambda>s. s, loadAll = \<lambda>s. Some [(''5'', 0::nat)], valid = \<lambda>i. snd i \<noteq> 0\<rparr>
        ''- id: 5'' \<noteq> []
   \<and> validateConfigFile
        \<lparr>trim = \<lambda>s. s, loadAll = \<lambda>s. Some [(''5'', 0::nat)], valid = \<lambda>i. snd i \<noteq> 0\<rparr>
        \<lparr>fc_type = TypeUpdate, fc_filename = ''a.yaml'', fc_content = Some ''- id: 5''\<rparr>
      = \<lparr>vr_filename = ''a.yaml'', vr_data = None,
         vr_error = Some (FormattingErrors ''a.yaml'')\<rparr>
   \<and> onFileChange fst
        \<lparr>trim = \<lambda>s. s, loadAll = \<lambda>s. Some [(''5'', 0::nat)], valid = \<lambda>i. snd i \<noteq> 0\<rparr>
        \<lparr>fc_type = TypeUpdate, fc_filename = ''a.yaml'', fc_content = Some ''- id: 5''\<rparr>
        \<lparr>state = [(''5'', \<lparr>filename = ''a.yaml'', obj = (''5'', 1::nat)\<rparr>)], trace = []\<rparr>
      = \<lparr>state = [(''5'', \<lparr>filename = ''a.yaml'', obj = (''5'', 1::nat)\<rparr>)], trace = []\<rparr>"
proof -
  let ?lib = "\<lparr>trim = \<lambda>s. s, loadAll = \<lambda>s. Some [(''5'', 0::nat)],
               valid = \<lambda>i. snd i \<noteq> 0\<rparr>"
  let ?fc = "\<lparr>fc_type = TypeUpdate, fc_filename = ''a.yaml'', fc_content = Some ''- id: 5''\<rparr>"
  let ?w = "\<lparr>state = [(''5'', \<lparr>filename = ''a.yaml'', obj = (''5'', 1::nat)\<rparr>)], trace = []\<rparr>"
  have h1: "fc_type ?fc = TypeAdd \<or> fc_type ?fc = TypeUpdate" by simp
  have h2: "fc_content ?fc = Some ''- id: 5''" by simp
  have h3: "trim ?lib ''- id: 5'' \<noteq> []" by simp
  have h4: "loadAll ?lib ''- id: 5'' = None
      \<or> (\<exists>items. loadAll ?lib ''- id: 5'' = Some items \<and> (\<exists>i \<in> set items. \<not> valid ?lib i))"
    by simp
  have v: "validateConfigFile ?lib ?fc =
      \<lparr>vr_filename = ''a.yaml'', vr_data = None, vr_error = Some (FormattingErrors ''a.yaml'')\<rparr>"
    by (simp add: validateConfigFile_def)
  show ?thesis
    using h1 h2 h3 v failed_validation_is_atomic [OF h1 h2 h3 h4, of fst ?w] by simp
qed

section \<open>Removal of a file\<close>

text \<open>
  Claim C4, as amended. A remove event for the file \<open>fname\<close>, on a state that tracks
  \<open>n\<close> identities under \<open>fname\<close>, emits exactly \<open>n\<close> remove actions, one per such
  identity. It deletes the entries of those identities that are not the empty string
  (\<open>removeSet\<close> returns at once on an empty id) and leaves every other entry as it was.
  So no entry with the file name \<open>fname\<close> is left when the empty identity is not tracked
  under \<open>fname\<close>.
\<close>

theorem remove_event_completeness:
  assumes wf: "wf_state getId (state w)"
  shows "\<exists>ids. emitted (process_event getId (Removed fname) w) = emitted w @ map Remove ids
           \<and> distinct ids \<and> set ids = {k. filed_under (state w) fname k}
           \<and> length ids = card {k. filed_under (state w) fname k}
           \<and> (\<forall>k. map_of (state (process_event getId (Removed fname) w)) k =
                  (if k \<noteq> [] \<and> filed_under (state w) fname k then None
                   else map_of (state w) k))
           \<and> (\<not> filed_under (state w) fname [] \<longrightarrow>
                (\<forall>k. \<not> filed_under (state (process_event getId (Removed fname) w)) fname k))"
proof -
  let ?w' = "process_event getId (Removed fname) w"
  obtain ids where ids: "remove_file_actions getId (state w) fname = map Remove ids"
      "distinct ids" "set ids = {k. filed_under (state w) fname k}"
    using remove_file_actions_ids [OF wf] by blast
  have em: "emitted ?w' = emitted w @ map Remove ids"
    by (simp add: emitted_process_event ids(1))
  have len: "length ids = card {k. filed_under (state w) fname k}"
    using ids(2,3) distinct_card by fastforce
  have st: "map_of (state ?w') k =
      (if k \<noteq> [] \<and> filed_under (state w) fname k then None else map_of (state w) k)" for k
    using map_of_remove_file [OF wf] by (simp add: process_event_def)
  have none: "\<not> filed_under (state ?w') fname k" if "\<not> filed_under (state w) fname []" for k
  proof (cases "filed_under (state w) fname k")
    case True
    with that have "k \<noteq> []" by auto
    with True have "map_of (state ?w') k = None" by (simp add: st)
    then show ?thesis by (simp add: filed_under_def)
  next
    case False
    then have "map_of (state ?w') k = map_of (state w) k" by (simp add: st)
    with False show ?thesis by (simp add: filed_under_def)
  qed
  from em ids(2,3) len st none show ?thesis by blast
qed

theorem remove_event_completeness_witness:
  "wf_state fst (state \<lparr>state = [(''x'', \<lparr>filename = ''a.yaml'', obj = (''x'', 1::nat)\<rparr>),
                                 (''y'', \<lparr>filename = ''b.yaml'', obj = (''y'', 7)\<rparr>)],
                         trace = []\<rparr>)
   \<and> emitted (process_event fst (Removed ''a.yaml'')
        \<lparr>state = [(''x'', \<lparr>filename = ''a.yaml'', obj = (''x'', 1::nat)\<rparr>),
                  (''y'', \<lparr>filename = ''b.yaml'', obj = (''y'', 7)\<rparr>)],
         trace = []\<rparr>) = [Remove ''x'']
   \<and> state (process_event fst (Removed ''a.yaml'')
        \<lparr>state = [(''x'', \<lparr>filename = ''a.yaml'', obj = (''x'', 1::nat)\<rparr>),
                  (''y'', \<lparr>filename = ''b.yaml'', obj = (''y'', 7)\<rparr>)],
         trace = []\<rparr>) = [(''y'', \<lparr>filename = ''b.yaml'', obj = (''y'', 7)\<rparr>)]
   \<and> (\<exists>ids. length ids = card {k. filed_under
              [(''x'', \<lparr>filename = ''a.yaml'', obj = (''x'', 1::nat)\<rparr>),
               (''y'', \<lparr>filename = ''b.yaml'', obj = (''y'', 7)\<rparr>)] ''a.yaml'' k}
          \<and> [Remove ''x''] = map Remove ids)"
proof -
  let ?w = "\<lparr>state = [(''x'', \<lparr>filename = ''a.yaml'', obj = (''x'', 1::nat)\<rparr>),
                      (''y'', \<lparr>filename = ''b.yaml'', obj = (''y'', 7)\<rparr>)],
              trace = []\<rparr>"
  have h: "wf_state fst (state ?w)" by (simp add: wf_state_def)
  have e: "emitted (process_event fst (Removed ''a.yaml'') ?w) = [Remove ''x'']"
    by (simp add: object_eval watcher_eval)
  have s: "state (process_event fst (Removed ''a.yaml'') ?w) =
      [(''y'', \<lparr>filename = ''b.yaml'', obj = (''y'', 7)\<rparr>)]"
    by (simp add: object_eval watcher_eval)
  from remove_event_completeness [OF h, of "''a.yaml''"] obtain ids where
    "emitted (process_event fst (Removed ''a.yaml'') ?w) = emitted ?w @ map Remove ids"
    "length ids = card {k. filed_under (state ?w) ''a.yaml'' k}"
    by blast
  then have "\<exists>ids. length ids = card {k. filed_under (state ?w) ''a.yaml'' k}
      \<and> [Remove ''x''] = map Remove ids"
    using e by (auto simp: emitted_def)
  with h e s show ?thesis by simp
qed

text \<open>
  The claim as stated fails for the empty identity: the remove action is emitted, the
  entry stays, and the state still has an entry filed under the removed file.
\<close>

theorem empty_identity_not_removed:
  "state (process_events fst [Validated ''a.yaml'' [('''', 1::nat)], Removed ''a.yaml'']
            new_watcher) =
     [('''', \<lparr>filename = ''a.yaml'', obj = ('''', 1)\<rparr>)]
   \<and> emitted (process_events fst [Validated ''a.yaml'' [('''', 1::nat)], Removed ''a.yaml'']
            new_watcher) =
     [Add '''' \<lparr>filename = ''a.yaml'', obj = ('''', 1)\<rparr>, Remove '''']
   \<and> filed_under
        (state (process_events fst [Validated ''a.yaml'' [('''', 1::nat)], Removed ''a.yaml'']
            new_watcher)) ''a.yaml'' ''''"
  by (simp add: object_eval watcher_eval filed_under_def)

section \<open>An item that moves between files\<close>

text \<open>
  Claim C5, as amended. Let the state track the identity \<open>X\<close> under the file \<open>A\<close> with
  the item \<open>n\<close>, and let the validated list of another file \<open>B\<close>, with pairwise
  distinct identities, contain \<open>n\<close>. If the event of \<open>B\<close> is processed first, the only
  action for \<open>X\<close> is one moved action, and the removal of \<open>A\<close> after it emits no action
  for \<open>X\<close>. If the removal of \<open>A\<close> is processed first, it emits one remove action for
  \<open>X\<close>; the event of \<open>B\<close> after it emits one add action for \<open>X\<close>, provided \<open>X\<close> is
  not the empty string and names no property of \<open>Object.prototype\<close>.
\<close>

theorem move_between_files:
  assumes wf: "wf_state getId (state w)"
    and tracked: "map_of (state w) X = Some \<lparr>filename = A, obj = n\<rparr>"
    and AB: "A \<noteq> B"
    and dist: "distinct (map getId items)"
    and decl: "n \<in> set items"
  shows "filter (\<lambda>a. action_id a = X) (file_event_actions getId (state w) (Validated B items))
           = [Moved X \<lparr>filename = B, obj = n\<rparr>]
       \<and> filter (\<lambda>a. action_id a = X)
           (file_event_actions getId (state (process_event getId (Validated B items) w))
              (Removed A)) = []
       \<and> filter (\<lambda>a. action_id a = X) (file_event_actions getId (state w) (Removed A))
           = [Remove X]
       \<and> (X \<noteq> [] \<and> X \<notin> set Object_prototype_keys \<longrightarrow>
           filter (\<lambda>a. action_id a = X)
             (file_event_actions getId (state (process_event getId (Removed A) w))
                (Validated B items)) = [Add X \<lparr>filename = B, obj = n\<rparr>])"
proof -
  let ?w1 = "process_event getId (Validated B items) w"
  let ?w2 = "process_event getId (Removed A) w"
  have "(X, \<lparr>filename = A, obj = n\<rparr>) \<in> set (state w)"
    using tracked by (rule map_of_SomeD)
  then have X: "getId n = X" using wf_state_lookup(2) [OF wf] by fastforce
  have p1: "filter (\<lambda>a. action_id a = X) (file_event_actions getId (state w) (Validated B items))
           = [Moved X \<lparr>filename = B, obj = n\<rparr>]"
    using filter_update_file_actions [OF dist decl, where st = "state w" and fname = B] tracked AB
    by (simp add: X item_actions_def property_get_def)
  have "map_of (state ?w1) X = Some \<lparr>filename = B, obj = n\<rparr>"
    using map_of_update_file [OF wf dist, of B X] declared_item_member [OF dist decl]
    by (simp add: process_event_def X)
  then have "\<not> filed_under (state ?w1) A X" using AB by (simp add: filed_under_def)
  then have p2: "filter (\<lambda>a. action_id a = X)
           (file_event_actions getId (state ?w1) (Removed A)) = []"
    using filter_remove_file_actions [OF wf_state_process_event [OF wf]] by simp
  have "filed_under (state w) A X" using tracked by (simp add: filed_under_def)
  then have p3: "filter (\<lambda>a. action_id a = X) (file_event_actions getId (state w) (Removed A))
           = [Remove X]"
    using filter_remove_file_actions [OF wf] by simp
  have p4: "filter (\<lambda>a. action_id a = X)
             (file_event_actions getId (state ?w2) (Validated B items))
           = [Add X \<lparr>filename = B, obj = n\<rparr>]"
    if "X \<noteq> []" "X \<notin> set Object_prototype_keys"
  proof -
    have "map_of (state ?w2) X = None"
      using map_of_remove_file [OF wf, of A X] that(1) \<open>filed_under (state w) A X\<close>
      by (simp add: process_event_def)
    then have "item_actions getId (state ?w2) B n = [Add X \<lparr>filename = B, obj = n\<rparr>]"
      using that(2) by (simp add: item_actions_def property_get_def X)
    then show ?thesis
      using filter_update_file_actions [OF dist decl, where st = "state ?w2" and fname = B]
      by (simp add: X)
  qed
  from p1 p2 p3 p4 show ?thesis by blast
qed

theorem move_between_files_witness:
  "wf_state fst (state \<lparr>state = [(''y'', \<lparr>filename = ''b.yaml'', obj = (''y'', 7::nat)\<rparr>)],
                         trace = []\<rparr>)
   \<and> map_of (state \<lparr>state = [(''y'', \<lparr>filename = ''b.yaml'', obj = (''y'', 7::nat)\<rparr>)],
                      trace = []\<rparr>) ''y'' = Some \<lparr>filename = ''b.yaml'', obj = (''y'', 7)\<rparr>
   \<and> ''b.yaml'' \<noteq> ''c.yaml''
   \<and> distinct (map fst [(''y'', 7::nat)])
   \<and> (''y'', 7::nat) \<in> set [(''y'', 7)]
   \<and> ''y'' \<noteq> [] \<and> ''y'' \<notin> set Object_prototype_keys
   \<and> filter (\<lambda>a. action_id a = ''y'')
        (file_event_actions fst
           (state \<lparr>state = [(''y'', \<lparr>filename = ''b.yaml'', obj = (''y'', 7::nat)\<rparr>)],
                   trace = []\<rparr>)
           (Validated ''c.yaml'' [(''y'', 7)]))
      = [Moved ''y'' \<lparr>filename = ''c.yaml'', obj = (''y'', 7)\<rparr>]
   \<and> filter (\<lambda>a. action_id a = ''y'')
        (file_event_actions fst
           (state (process_event fst (Validated ''c.yaml'' [(''y'', 7)])
              \<lparr>state = [(''y'', \<lparr>filename = ''b.yaml'', obj = (''y'', 7::nat)\<rparr>)],
               trace = []\<rparr>))
           (Removed ''b.yaml'')) = []
   \<and> filter (\<lambda>a. action_id a = ''y'')
        (file_event_actions fst
           (state (process_event fst (Removed ''b.yaml'')
              \<lparr>state = [(''y'', \<lparr>filename = ''b.yaml'', obj = (''y'', 7::nat)\<rparr>)],
               trace = []\<rparr>))
           (Validated ''c.yaml'' [(''y'', 7)]))
      = [Add ''y'' \<lparr>filename = ''c.yaml'', obj = (''y'', 7)\<rparr>]"
proof -
  let ?w = "\<lparr>state = [(''y'', \<lparr>filename = ''b.yaml'', obj = (''y'', 7::nat)\<rparr>)],
              trace = []\<rparr>"
  have h1: "wf_state fst (state ?w)" by (simp add: wf_state_def)
  have h2: "map_of (state ?w) ''y'' = Some \<lparr>filename = ''b.yaml'', obj = (''y'', 7)\<rparr>"
    by simp
  have h3: "''b.yaml'' \<noteq> ''c.yaml''" by simp
  have h4: "distinct (map fst [(''y'', 7::nat)])" by simp
  have h5: "(''y'', 7::nat) \<in> set [(''y'', 7)]" by simp
  have h6: "''y'' \<noteq> [] \<and> ''y'' \<notin> set Object_prototype_keys"
    by (simp add: Object_prototype_keys_def)
  show ?thesis
    using h1 h2 h3 h4 h5 h6 move_between_files [OF h1 h2 h3 h4 h5] by blast
qed

text \<open>
  The claim as stated fails for the empty identity: \<open>removeSet\<close> ignores it, the entry
  survives the removal of its file, and the new file is answered with a moved action.
\<close>

theorem empty_identity_moved_after_remove:
  "emitted (process_events fst
       [Validated ''a.yaml'' [('''', 1::nat)], Removed ''a.yaml'',
        Validated ''b.yaml'' [('''', 1)]] new_watcher) =
     [Add '''' \<lparr>filename = ''a.yaml'', obj = ('''', 1)\<rparr>,
      Remove '''',
      Moved '''' \<lparr>filename = ''b.yaml'', obj = ('''', 1)\<rparr>]"
  by (simp add: object_eval watcher_eval)

section \<open>Delivering a file twice\<close>

text \<open>
  Claim C6, as amended. When a validated list with pairwise distinct identities has been
  processed for a file, processing the same list for the same file again emits no
  action and leaves the watcher as it is, provided the state did not track the empty
  identity under that file without the list declaring it.
\<close>

theorem redelivery_is_noop:
  assumes wf: "wf_state getId (state w)"
    and dist: "distinct (map getId items)"
    and ne: "filed_under (state w) fname [] \<longrightarrow> [] \<in> getId ` set items"
  shows "file_event_actions getId (state (process_event getId (Validated fname items) w))
           (Validated fname items) = []
       \<and> process_event getId (Validated fname items)
           (process_event getId (Validated fname items) w) =
         process_event getId (Validated fname items) w"
proof -
  let ?w1 = "process_event getId (Validated fname items) w"
  have wf1: "wf_state getId (state ?w1)" using wf by (rule wf_state_process_event)
  have st1: "map_of (state ?w1) k =
     (case declared_item getId items k of
        Some n \<Rightarrow> Some \<lparr>filename = fname, obj = n\<rparr>
      | None \<Rightarrow> if k \<noteq> [] \<and> filed_under (state w) fname k then None
                else map_of (state w) k)" for k
    using map_of_update_file [OF wf dist] by (simp add: process_event_def)
  have new: "item_actions getId (state ?w1) fname n = []" if "n \<in> set items" for n
    using declared_item_member [OF dist that] by (simp add: item_actions_Nil_iff st1)
  have old: "getId (obj cs) \<in> getId ` set items"
    if cs: "cs \<in> set (Object_values (state ?w1))" "filename cs = fname" for cs
  proof (rule ccontr)
    assume notin: "getId (obj cs) \<notin> getId ` set items"
    from cs(1) obtain k where k: "(k, cs) \<in> set (state ?w1)"
      by (auto simp: set_Object_values)
    have lk: "map_of (state ?w1) k = Some cs" and id: "getId (obj cs) = k"
      using wf_state_lookup [OF wf1 k] by simp_all
    have none: "declared_item getId items k = None"
      using notin id by (simp add: declared_item_None_iff)
    have keep: "\<not> (k \<noteq> [] \<and> filed_under (state w) fname k)" and was: "map_of (state w) k = Some cs"
      using lk st1 [of k] none by (auto split: if_splits)
    have "filed_under (state w) fname k" using was cs(2) by (simp add: filed_under_def)
    with keep have "k = []" "filed_under (state w) fname []" by auto
    with ne notin id show False by simp
  qed
  have "update_file_actions getId (state ?w1) fname items = []"
    using new old
    by (simp add: update_file_actions_def vanished_actions_Nil_iff new_item_actions_Nil_iff)
  then show ?thesis by (simp add: process_event_def)
qed

theorem redelivery_is_noop_witness:
  "wf_state fst (state (new_watcher :: (string \<times> nat) Watcher))
   \<and> distinct (map fst [(''x'', 1::nat), (''y'', 2)])
   \<and> \<not> filed_under (state (new_watcher :: (string \<times> nat) Watcher)) ''a.yaml'' []
   \<and> emitted (process_event fst (Validated ''a.yaml'' [(''x'', 1::nat), (''y'', 2)]) new_watcher)
       = [Add ''x'' \<lparr>filename = ''a.yaml'', obj = (''x'', 1)\<rparr>,
          Add ''y'' \<lparr>filename = ''a.yaml'', obj = (''y'', 2)\<rparr>]
   \<and> process_event fst (Validated ''a.yaml'' [(''x'', 1::nat), (''y'', 2)])
        (process_event fst (Validated ''a.yaml'' [(''x'', 1), (''y'', 2)]) new_watcher) =
      process_event fst (Validated ''a.yaml'' [(''x'', 1), (''y'', 2)]) new_watcher"
proof -
  have h1: "wf_state fst (state (new_watcher :: (string \<times> nat) Watcher))"
    by (simp add: wf_state_def new_watcher_def)
  have h2: "distinct (map fst [(''x'', 1::nat), (''y'', 2)])" by simp
  have h3: "\<not> filed_under (state (new_watcher :: (string \<times> nat) Watcher)) ''a.yaml'' []"
    by (simp add: filed_under_def new_watcher_def)
  then have h3': "filed_under (state (new_watcher :: (string \<times> nat) Watcher)) ''a.yaml'' []
      \<longrightarrow> [] \<in> fst ` set [(''x'', 1::nat), (''y'', 2)]"
    by simp
  have e: "emitted (process_event fst (Validated ''a.yaml'' [(''x'', 1::nat), (''y'', 2)]) new_watcher)
       = [Add ''x'' \<lparr>filename = ''a.yaml'', obj = (''x'', 1)\<rparr>,
          Add ''y'' \<lparr>filename = ''a.yaml'', obj = (''y'', 2)\<rparr>]"
    by (simp add: object_eval watcher_eval)
  show ?thesis
    using h1 h2 h3 e redelivery_is_noop [OF h1 h2 h3'] by blast
qed

text \<open>
  The claim as stated fails on a list that repeats an identity: the second delivery of
  the same list emits an update and changes the state.
\<close>

theorem redelivery_with_repeated_identity:
  "emitted (process_events fst
       [Validated ''a.yaml'' [(''x'', 1::nat), (''x'', 2)],
        Validated ''a.yaml'' [(''x'', 1), (''x'', 2)]] new_watcher) =
     [Add ''x'' \<lparr>filename = ''a.yaml'', obj = (''x'', 1)\<rparr>,
      Add ''x'' \<lparr>filename = ''a.yaml'', obj = (''x'', 2)\<rparr>,
      Update ''x'' \<lparr>filename = ''a.yaml'', obj = (''x'', 1)\<rparr>]
   \<and> state (process_events fst
       [Validated ''a.yaml'' [(''x'', 1::nat), (''x'', 2)],
        Validated ''a.yaml'' [(''x'', 1), (''x'', 2)]] new_watcher) \<noteq>
     state (process_events fst
       [Validated ''a.yaml'' [(''x'', 1::nat), (''x'', 2)]] new_watcher)"
  by (simp add: object_eval watcher_eval)

section \<open>At most one action per identity\<close>

lemma action_id_item_actions:
  "map action_id (item_actions getId st fname n) =
     (if item_actions getId st fname n = [] then [] else [getId n])"
  by (simp add: item_actions_def Let_def split: js_property.splits)

lemma action_id_new_item_actions:
  "map action_id (new_item_actions getId st fname items) =
     map getId (filter (\<lambda>n. item_actions getId st fname n \<noteq> []) items)"
  by (induction items) (simp_all add: action_id_item_actions)

text \<open>
  Claim C7, as amended. For a file event on a state the watcher has built, whose validated
  list (if any) has pairwise distinct identities, the emitted actions have pairwise
  distinct identities: at most one action per identity.
\<close>

theorem one_action_per_identity:
  assumes wf: "wf_state getId st" and dist: "distinct_identities getId ev"
  shows "distinct (map action_id (file_event_actions getId st ev))"
proof (cases ev)
  case (Validated fname items)
  let ?ids = "map (\<lambda>cs. getId (obj cs))
           (filter (\<lambda>cs. getId (obj cs) \<notin> getId ` set items)
              (filter (\<lambda>cs. filename cs = fname) (Object_values st)))"
  let ?new = "map getId (filter (\<lambda>n. item_actions getId st fname n \<noteq> []) items)"
  have ids: "map action_id (update_file_actions getId st fname items) = ?ids @ ?new"
    by (simp add: update_file_actions_def vanished_actions_eq action_id_new_item_actions
        comp_def)
  have "distinct ?ids"
    using distinct_tracked_identities [OF wf,
        of "\<lambda>cs. filename cs = fname \<and> getId (obj cs) \<notin> getId ` set items"]
    by (simp add: conj_commute)
  moreover have "distinct ?new"
    using dist Validated by (simp add: distinct_map_filter)
  moreover have "set ?ids \<inter> set ?new = {}" by auto
  ultimately show ?thesis using Validated by (simp add: ids)
next
  case (Removed fname)
  obtain ids where "remove_file_actions getId st fname = map Remove ids" "distinct ids"
    using remove_file_actions_ids [OF wf] by blast
  then show ?thesis using Removed by (simp add: comp_def)
qed

theorem one_action_per_identity_witness:
  "wf_state fst [(''x'', \<lparr>filename = ''a.yaml'', obj = (''x'', 1::nat)\<rparr>),
                 (''y'', \<lparr>filename = ''a.yaml'', obj = (''y'', 1)\<rparr>)]
   \<and> distinct_identities fst (Validated ''a.yaml'' [(''x'', 2::nat), (''z'', 1)])
   \<and> distinct (map action_id (file_event_actions fst
         [(''x'', \<lparr>filename = ''a.yaml'', obj = (''x'', 1::nat)\<rparr>),
          (''y'', \<lparr>filename = ''a.yaml'', obj = (''y'', 1)\<rparr>)]
         (Validated ''a.yaml'' [(''x'', 2), (''z'', 1)])))"
proof -
  have h1: "wf_state fst [(''x'', \<lparr>filename = ''a.yaml'', obj = (''x'', 1::nat)\<rparr>),
                 (''y'', \<lparr>filename = ''a.yaml'', obj = (''y'', 1)\<rparr>)]"
    by (simp add: wf_state_def)
  have h2: "distinct_identities fst (Validated ''a.yaml'' [(''x'', 2::nat), (''z'', 1)])"
    by simp
  show ?thesis using h1 h2 one_action_per_identity [OF h1 h2] by simp
qed

text \<open>
  The claim as stated fails on a list with a repeated identity: every item is compared
  with the state at the arrival of the event, so both items get an add action.
\<close>

theorem duplicate_identity_two_adds:
  "file_event_actions fst (state new_watcher)
       (Validated ''a.yaml'' [(''x'', 1::nat), (''x'', 2)]) =
     [Add ''x'' \<lparr>filename = ''a.yaml'', obj = (''x'', 1)\<rparr>,
      Add ''x'' \<lparr>filename = ''a.yaml'', obj = (''x'', 2)\<rparr>]
   \<and> \<not> distinct (map action_id (file_event_actions fst (state new_watcher)
       (Validated ''a.yaml'' [(''x'', 1::nat), (''x'', 2)])))"
  by (simp add: object_eval watcher_eval)

section \<open>Commit order\<close>

lemma commits_paired_emit:
  "commits_paired es \<Longrightarrow> commits_paired (es @ [ChangesNext a])"
  by (induction es rule: commits_paired.induct) simp_all

lemma commits_paired_commit:
  "commits_paired es \<Longrightarrow> commits_paired (es @ [StateNext s, ChangesNext a])"
  by (induction es rule: commits_paired.induct) simp_all

lemma commits_paired_tap_action:
  "commits_paired (trace w) \<Longrightarrow> commits_paired (trace (tap_action getId a w))"
  by (simp add: trace_tap_action commits_paired_emit commits_paired_commit)

lemma commits_paired_tap_all:
  "commits_paired (trace w) \<Longrightarrow> commits_paired (trace (tap_all getId as w))"
  by (induction as arbitrary: w) (simp_all add: commits_paired_tap_action)

lemma commits_paired_process_events:
  "commits_paired (trace w) \<Longrightarrow> commits_paired (trace (process_events getId evs w))"
  by (induction evs arbitrary: w) (simp_all add: process_event_def commits_paired_tap_all)

text \<open>
  Claim C8, as amended. For every action that reaches the \<open>tap\<close>, the store is updated
  first and the action is pushed on the change stream right after, with nothing in
  between. An add, update or moved action always pushes a new state, with the item
  stored under its identity. A remove action pushes a new state, without the entry,
  when its id is not empty and the read \<open>state[id]\<close> is not \<open>undefined\<close>; otherwise it
  is emitted while the state stays as it was. Every action computed for a file event is
  emitted, in order, and in every trace of the pipeline a pushed state is followed at
  once by an emitted action.
\<close>

theorem commit_order:
  "trace (tap_action getId a w) =
     trace w @ (if mutates (state w) a then [StateNext (state (tap_action getId a w))] else [])
       @ [ChangesNext a]
   \<and> (\<not> mutates (state w) a \<longrightarrow> state (tap_action getId a w) = state w)
   \<and> (wf_state getId (state w) \<longrightarrow>
        map_of (state (tap_action getId a w)) = apply_map getId a (map_of (state w)))
   \<and> emitted (process_event getId ev w) = emitted w @ file_event_actions getId (state w) ev
   \<and> commits_paired (trace (process_events getId evs new_watcher))"
proof -
  have "commits_paired (trace (new_watcher :: 'a Watcher))" by (simp add: new_watcher_def)
  then have "commits_paired (trace (process_events getId evs new_watcher))"
    by (rule commits_paired_process_events)
  then show ?thesis
    using trace_tap_action [of getId a w] state_tap_action_unmutated [of w a getId]
      map_of_tap_action [of getId w a] emitted_process_event [of getId ev w]
    by blast
qed

theorem commit_order_witness:
  "mutates (state (new_watcher :: (string \<times> nat) Watcher))
     (Add ''x'' \<lparr>filename = ''a.yaml'', obj = (''x'', 1)\<rparr>)
   \<and> wf_state fst (state (new_watcher :: (string \<times> nat) Watcher))
   \<and> trace (tap_action fst (Add ''x'' \<lparr>filename = ''a.yaml'', obj = (''x'', 1::nat)\<rparr>)
        new_watcher) =
      [StateNext [(''x'', \<lparr>filename = ''a.yaml'', obj = (''x'', 1)\<rparr>)],
       ChangesNext (Add ''x'' \<lparr>filename = ''a.yaml'', obj = (''x'', 1)\<rparr>)]
   \<and> map_of (state (tap_action fst (Add ''x'' \<lparr>filename = ''a.yaml'', obj = (''x'', 1::nat)\<rparr>)
        new_watcher)) ''x'' = Some \<lparr>filename = ''a.yaml'', obj = (''x'', 1)\<rparr>
   \<and> \<not> mutates (state (new_watcher :: (string \<times> nat) Watcher)) (Remove ''x'')
   \<and> state (tap_action fst (Remove ''x'') (new_watcher :: (string \<times> nat) Watcher)) =
      state (new_watcher :: (string \<times> nat) Watcher)"
proof -
  have m: "mutates (state (new_watcher :: (string \<times> nat) Watcher))
     (Add ''x'' \<lparr>filename = ''a.yaml'', obj = (''x'', 1)\<rparr>)"
    by simp
  have wf: "wf_state fst (state (new_watcher :: (string \<times> nat) Watcher))"
    by (simp add: wf_state_def new_watcher_def)
  have s: "state (tap_action fst (Add ''x'' \<lparr>filename = ''a.yaml'', obj = (''x'', 1::nat)\<rparr>)
        new_watcher) = [(''x'', \<lparr>filename = ''a.yaml'', obj = (''x'', 1)\<rparr>)]"
    by (simp add: object_eval watcher_eval)
  have t: "trace (new_watcher :: (string \<times> nat) Watcher) = []"
    by (simp add: new_watcher_def)
  have n: "\<not> mutates (state (new_watcher :: (string \<times> nat) Watcher)) (Remove ''x'')"
    by (simp add: object_eval watcher_eval)
  show ?thesis
    using m wf s t n
      commit_order [of fst "Add ''x'' \<lparr>filename = ''a.yaml'', obj = (''x'', 1::nat)\<rparr>"
        new_watcher]
      commit_order [of fst "Remove ''x''" "new_watcher :: (string \<times> nat) Watcher"]
    by simp
qed

text \<open>
  The claim as stated fails: after a file with an item of empty identity, the removal of
  the file emits a remove action for which no state is pushed.
\<close>

theorem remove_emitted_without_mutation:
  "file_event_actions fst
       (state (process_event fst (Validated ''a.yaml'' [('''', 1::nat)]) new_watcher))
       (Removed ''a.yaml'') = [Remove '''']
   \<and> \<not> committed_with_mutation fst (Remove '''')
         (process_event fst (Validated ''a.yaml'' [('''', 1::nat)]) new_watcher)
   \<and> trace (tap_action fst (Remove '''')
         (process_event fst (Validated ''a.yaml'' [('''', 1::nat)]) new_watcher)) =
      trace (process_event fst (Validated ''a.yaml'' [('''', 1::nat)]) new_watcher)
        @ [ChangesNext (Remove '''')]"
  by (simp add: object_eval watcher_eval committed_with_mutation_def)

section \<open>The state against the sources\<close>

lemma most_recently_validated_filter:
  "most_recently_validated getId files k = Some cs \<Longrightarrow> filename cs \<noteq> fname \<Longrightarrow>
     most_recently_validated getId (filter (\<lambda>p. fst p \<noteq> fname) files) k = Some cs"
proof (induction files)
  case Nil
  then show ?case by simp
next
  case (Cons p files)
  obtain f items where p: "p = (f, items)" by (cases p)
  show ?case
  proof (cases "declared_item getId items k")
    case None
    then show ?thesis using Cons by (simp add: p)
  next
    case (Some n)
    then have "cs = \<lparr>filename = f, obj = n\<rparr>" using Cons.prems(1) by (simp add: p)
    then have "f \<noteq> fname" using Cons.prems(2) by auto
    then show ?thesis using Cons.prems(1) Some by (simp add: p)
  qed
qed

lemma own_key_iff: "k \<in> fst ` set st \<longleftrightarrow> map_of st k \<noteq> None"
  by (simp add: map_of_eq_None_iff)

lemma sources_step:
  assumes wf: "wf_state getId (state w)"
    and proper: "[] \<notin> fst ` set (state w)"
    and inv: "\<forall>k cs. map_of (state w) k = Some cs \<longrightarrow>
                most_recently_validated getId files k = Some cs"
    and ev: "proper_identities getId ev"
  shows "wf_state getId (state (process_event getId ev w))
       \<and> [] \<notin> fst ` set (state (process_event getId ev w))
       \<and> (\<forall>k cs. map_of (state (process_event getId ev w)) k = Some cs \<longrightarrow>
             most_recently_validated getId (track_file ev files) k = Some cs)"
proof -
  let ?w' = "process_event getId ev w"
  have no_empty: "map_of (state w) [] = None" using proper by (simp add: own_key_iff)
  have wf': "wf_state getId (state ?w')" using wf by (rule wf_state_process_event)
  have kept: "most_recently_validated getId (filter (\<lambda>p. fst p \<noteq> fname) files) k = Some cs"
    if "map_of (state w) k = Some cs" "\<not> (k \<noteq> [] \<and> filed_under (state w) fname k)"
    for k cs fname
  proof -
    have "k \<noteq> []" using that(1) no_empty by auto
    then have "filename cs \<noteq> fname" using that by (simp add: filed_under_def)
    moreover have "most_recently_validated getId files k = Some cs" using inv that(1) by simp
    ultimately show ?thesis by (simp add: most_recently_validated_filter)
  qed
  show ?thesis
  proof (cases ev)
    case (Validated fname items)
    then have dist: "distinct (map getId items)" and ne: "[] \<notin> getId ` set items"
      using ev by simp_all
    have st: "map_of (state ?w') k =
       (case declared_item getId items k of
          Some n \<Rightarrow> Some \<lparr>filename = fname, obj = n\<rparr>
        | None \<Rightarrow> if k \<noteq> [] \<and> filed_under (state w) fname k then None
                  else map_of (state w) k)" for k
      using map_of_update_file [OF wf dist] by (simp add: process_event_def Validated)
    have "declared_item getId items [] = None" using ne by (simp add: declared_item_None_iff)
    then have "map_of (state ?w') [] = None" using no_empty by (simp add: st)
    then have p': "[] \<notin> fst ` set (state ?w')" by (simp add: own_key_iff)
    have "most_recently_validated getId (track_file ev files) k = Some cs"
      if "map_of (state ?w') k = Some cs" for k cs
    proof (cases "declared_item getId items k")
      case None
      then have "map_of (state w) k = Some cs" "\<not> (k \<noteq> [] \<and> filed_under (state w) fname k)"
        using that st [of k] by (auto split: if_splits)
      then show ?thesis using kept None by (simp add: Validated)
    next
      case (Some n)
      then show ?thesis using that st [of k] by (simp add: Validated)
    qed
    with wf' p' show ?thesis by blast
  next
    case (Removed fname)
    have st: "map_of (state ?w') k =
       (if k \<noteq> [] \<and> filed_under (state w) fname k then None else map_of (state w) k)" for k
      using map_of_remove_file [OF wf] by (simp add: process_event_def Removed)
    have "map_of (state ?w') [] = None" using no_empty by (simp add: st)
    then have p': "[] \<notin> fst ` set (state ?w')" by (simp add: own_key_iff)
    have "most_recently_validated getId (track_file ev files) k = Some cs"
      if "map_of (state ?w') k = Some cs" for k cs
    proof -
      have "map_of (state w) k = Some cs" "\<not> (k \<noteq> [] \<and> filed_under (state w) fname k)"
        using that st [of k] by (auto split: if_splits)
      then show ?thesis using kept by (simp add: Removed)
    qed
    with wf' p' show ?thesis by blast
  qed
qed

lemma sources_run:
  assumes "wf_state getId (state w)"
    and "[] \<notin> fst ` set (state w)"
    and "\<forall>k cs. map_of (state w) k = Some cs \<longrightarrow>
                most_recently_validated getId files k = Some cs"
    and "list_all (proper_identities getId) evs"
  shows "wf_state getId (state (process_events getId evs w))
       \<and> (\<forall>k cs. map_of (state (process_events getId evs w)) k = Some cs \<longrightarrow>
             most_recently_validated getId (tracked_files evs files) k = Some cs)"
  using assms
proof (induction evs arbitrary: w files)
  case Nil
  then show ?case by simp
next
  case (Cons ev evs)
  have ev: "proper_identities getId ev" and evs: "list_all (proper_identities getId) evs"
    using Cons.prems(4) by simp_all
  note step = sources_step [OF Cons.prems(1) Cons.prems(2) Cons.prems(3) ev]
  show ?case
    using Cons.IH [OF conjunct1 [OF step] conjunct1 [OF conjunct2 [OF step]]
        conjunct2 [OF conjunct2 [OF step]] evs]
    by simp
qed

text \<open>
  Claim C1, as amended. After processing, from the initial state, any sequence of file
  events whose validated lists have pairwise distinct and non-empty identities: for
  every identity \<open>k\<close> in the state, the entry of \<open>k\<close> is the item most recently validated
  under \<open>k\<close> among the files that still declare \<open>k\<close>, filed under that file.
\<close>

theorem state_reflects_latest_sources:
  assumes "list_all (proper_identities getId) evs"
  shows "state_reflects_sources getId (state (process_events getId evs new_watcher))
           (tracked_files evs [])"
proof -
  have "wf_state getId (state (new_watcher :: 'a Watcher))"
    by (simp add: wf_state_def new_watcher_def)
  moreover have "[] \<notin> fst ` set (state (new_watcher :: 'a Watcher))"
    by (simp add: new_watcher_def)
  moreover have "\<forall>k cs. map_of (state (new_watcher :: 'a Watcher)) k = Some cs \<longrightarrow>
                most_recently_validated getId [] k = Some cs"
    by (simp add: new_watcher_def)
  ultimately have run: "wf_state getId (state (process_events getId evs new_watcher))
       \<and> (\<forall>k cs. map_of (state (process_events getId evs new_watcher)) k = Some cs \<longrightarrow>
             most_recently_validated getId (tracked_files evs []) k = Some cs)"
    using assms by (rule sources_run)
  then have "distinct (map fst (state (process_events getId evs new_watcher)))"
    by (simp add: wf_state_def)
  then have "\<forall>p \<in> set (state (process_events getId evs new_watcher)).
      map_of (state (process_events getId evs new_watcher)) (fst p) = Some (snd p)"
    by simp
  with run show ?thesis by (simp add: state_reflects_sources_def list_all_iff)
qed

theorem state_reflects_latest_sources_witness:
  "list_all (proper_identities fst)
     [Validated ''b.yaml'' [(''y'', 7::nat)], Validated ''c.yaml'' [(''y'', 7)],
      Removed ''b.yaml'', Validated ''a.yaml'' [(''x'', 1), (''z'', 2)]]
   \<and> state_reflects_sources fst
        (state (process_events fst
           [Validated ''b.yaml'' [(''y'', 7::nat)], Validated ''c.yaml'' [(''y'', 7)],
            Removed ''b.yaml'', Validated ''a.yaml'' [(''x'', 1), (''z'', 2)]] new_watcher))
        (tracked_files
           [Validated ''b.yaml'' [(''y'', 7::nat)], Validated ''c.yaml'' [(''y'', 7)],
            Removed ''b.yaml'', Validated ''a.yaml'' [(''x'', 1), (''z'', 2)]] [])
   \<and> state (process_events fst
           [Validated ''b.yaml'' [(''y'', 7::nat)], Validated ''c.yaml'' [(''y'', 7)],
            Removed ''b.yaml'', Validated ''a.yaml'' [(''x'', 1), (''z'', 2)]] new_watcher) =
      [(''y'', \<lparr>filename = ''c.yaml'', obj = (''y'', 7)\<rparr>),
       (''x'', \<lparr>filename = ''a.yaml'', obj = (''x'', 1)\<rparr>),
       (''z'', \<lparr>filename = ''a.yaml'', obj = (''z'', 2)\<rparr>)]"
proof -
  let ?evs = "[Validated ''b.yaml'' [(''y'', 7::nat)], Validated ''c.yaml'' [(''y'', 7)],
      Removed ''b.yaml'', Validated ''a.yaml'' [(''x'', 1), (''z'', 2)]]"
  have h: "list_all (proper_identities fst) ?evs" by simp
  have s: "state (process_events fst ?evs new_watcher) =
      [(''y'', \<lparr>filename = ''c.yaml'', obj = (''y'', 7)\<rparr>),
       (''x'', \<lparr>filename = ''a.yaml'', obj = (''x'', 1)\<rparr>),
       (''z'', \<lparr>filename = ''a.yaml'', obj = (''z'', 2)\<rparr>)]"
    by (simp add: object_eval watcher_eval)
  show ?thesis
    using h s state_reflects_latest_sources [OF h] by simp
qed

text \<open>
  The claim as stated fails on a list that repeats an identity: each item is compared
  with the state at the arrival of the event, so after \<open>x: 3\<close> the list
  \<open>x: 1, x: 2, x: 3\<close> leaves \<open>x: 2\<close> in the state, which is neither the first nor the
  last item that the file declares under \<open>x\<close>.
\<close>

theorem repeated_identity_state_is_stale:
  "state (process_events fst
       [Validated ''a.yaml'' [(''x'', 3::nat)],
        Validated ''a.yaml'' [(''x'', 1), (''x'', 2), (''x'', 3)]] new_watcher) =
     [(''x'', \<lparr>filename = ''a.yaml'', obj = (''x'', 2)\<rparr>)]
   \<and> \<not> state_reflects_sources fst
        (state (process_events fst
           [Validated ''a.yaml'' [(''x'', 3::nat)],
            Validated ''a.yaml'' [(''x'', 1), (''x'', 2), (''x'', 3)]] new_watcher))
        (tracked_files
           [Validated ''a.yaml'' [(''x'', 3::nat)],
            Validated ''a.yaml'' [(''x'', 1), (''x'', 2), (''x'', 3)]] [])"
  by (simp add: object_eval watcher_eval state_reflects_sources_def)

text \<open>
  It also fails for the empty identity, which stays in the state when no file declares
  it any more.
\<close>

lemma empty_identity_outlives_its_file:
  "tracked_files [Validated ''a.yaml'' [('''', 1::nat)], Removed ''a.yaml''] [] = []
   \<and> \<not> state_reflects_sources fst
        (state (process_events fst
           [Validated ''a.yaml'' [('''', 1::nat)], Removed ''a.yaml''] new_watcher))
        (tracked_files [Validated ''a.yaml'' [('''', 1::nat)], Removed ''a.yaml''] [])"
  by (simp add: object_eval watcher_eval state_reflects_sources_def)

section \<open>The snapshots of the ConfigMap driver\<close>

lemma hasOwnProperty_update:
  "hasOwnProperty (AList.update f c st) k \<longleftrightarrow> k = f \<or> hasOwnProperty st k"
  by (auto simp: hasOwnProperty_def dom_update)

lemma expected_change_update:
  "fst q \<noteq> f \<Longrightarrow> expected_change (AList.update f c st) q = expected_change st q"
  by (simp add: expected_change_def hasOwnProperty_update update_conv')

lemma expected_removal_update:
  "hasOwnProperty props f \<Longrightarrow>
     concat (map (expected_removal props) (AList.update f c st)) =
     concat (map (expected_removal props) st)"
  by (induction st) (simp_all add: expected_removal_def)

lemma hasOwnProperty_map_values:
  "hasOwnProperty (map (\<lambda>p. (fst p, g (snd p))) props) k = hasOwnProperty props k"
  by (force simp: hasOwnProperty_def)

lemma present_loop_changes:
  assumes "distinct (map fst props)"
  shows "present_loop decode props (fc, st) =
     (fc @ concat (map (\<lambda>p. expected_change st (fst p, decode (snd p))) props),
      fold (\<lambda>p. AList.update (fst p) (decode (snd p))) props st)"
  using assms
proof (induction props arbitrary: fc st)
  case Nil
  then show ?case by simp
next
  case (Cons p props)
  obtain f raw where p: "p = (f, raw)" by (cases p)
  let ?st' = "AList.update f (decode raw) st"
  have fresh: "\<forall>q \<in> set props. fst q \<noteq> f" using Cons.prems by (auto simp: p)
  have same: "map (\<lambda>q. expected_change ?st' (fst q, decode (snd q))) props =
      map (\<lambda>q. expected_change st (fst q, decode (snd q))) props"
    using fresh by (simp add: expected_change_update)
  have dist: "distinct (map fst props)" using Cons.prems by simp
  have head: "present_loop decode (p # props) (fc, st) =
      present_loop decode props (fc @ expected_change st (f, decode raw), ?st')"
  proof (cases "hasOwnProperty st f")
    case False
    then show ?thesis by (simp add: p expected_change_def Let_def)
  next
    case True
    show ?thesis
    proof (cases "map_of st f = Some (decode raw)")
      case False
      then show ?thesis using True by (simp add: p expected_change_def Let_def)
    next
      case same_content: True
      then have "?st' = st" by (rule update_triv)
      then show ?thesis using True same_content by (simp add: p expected_change_def Let_def)
    qed
  qed
  show ?case
    unfolding head Cons.IH [OF dist] same by (simp add: p)
qed

lemma absent_loop_changes:
  "fst (absent_loop entries props (fc, st)) =
     fc @ concat (map (expected_removal props) entries)"
  by (induction entries arbitrary: fc st) (auto simp: expected_removal_def)

lemma expected_removal_fold_update:
  "\<forall>p \<in> set props'. hasOwnProperty props (fst p) \<Longrightarrow>
     concat (map (expected_removal props)
       (fold (\<lambda>p. AList.update (fst p) (g (snd p))) props' st)) =
     concat (map (expected_removal props) st)"
  by (induction props' arbitrary: st) (simp_all add: expected_removal_update)

lemma expected_removal_keys:
  "expected_removal (map (\<lambda>p. (fst p, g (snd p))) props) = expected_removal props"
  by (simp add: expected_removal_def fun_eq_iff hasOwnProperty_map_values)

lemma snapshot_block_changes:
  assumes "distinct (map fst props)" and "props \<noteq> []"
  shows "fst (snapshot_block decode (Some props) (fc, st)) =
     fc @ expected_changes st (map (\<lambda>p. (fst p, decode (snd p))) props)"
proof -
  let ?st1 = "fold (\<lambda>p. AList.update (fst p) (decode (snd p))) props st"
  have own: "\<forall>p \<in> set props. hasOwnProperty props (fst p)"
    by (simp add: hasOwnProperty_def)
  have "fst (snapshot_block decode (Some props) (fc, st)) =
      (fc @ concat (map (\<lambda>p. expected_change st (fst p, decode (snd p))) props))
        @ concat (map (expected_removal props) ?st1)"
    using assms(2)
    by (simp add: snapshot_block_def present_loop_changes [OF assms(1)] absent_loop_changes)
  also have "concat (map (expected_removal props) ?st1) =
      concat (map (expected_removal props) st)"
    using own by (rule expected_removal_fold_update)
  finally show ?thesis
    by (simp add: expected_changes_def expected_removal_keys comp_def)
qed

lemma snapshot_block_skipped:
  "block = None \<or> block = Some [] \<Longrightarrow> snapshot_block decode block acc = acc"
  by (auto simp: snapshot_block_def)

lemma absent_loop_store:
  "map_of (snd (absent_loop entries props (fc, st))) k =
     (if k \<in> fst ` set entries \<and> \<not> hasOwnProperty props k then None else map_of st k)"
proof (induction entries arbitrary: fc st)
  case Nil
  then show ?case by simp
next
  case (Cons e entries)
  obtain f c where e: "e = (f, c)" by (cases e)
  show ?case by (auto simp: e Cons.IH delete_conv')
qed

lemma map_of_fold_update:
  "distinct (map fst props) \<Longrightarrow>
     map_of (fold (\<lambda>p. AList.update (fst p) (g (snd p))) props st) k =
       (case map_of (map (\<lambda>p. (fst p, g (snd p))) props) k of
          Some c \<Rightarrow> Some c
        | None \<Rightarrow> map_of st k)"
proof (induction props arbitrary: st)
  case Nil
  then show ?case by simp
next
  case (Cons p props)
  have "fst p \<notin> fst ` set props" using Cons.prems by simp
  then have "map_of (map (\<lambda>p. (fst p, g (snd p))) props) (fst p) = None"
    by (simp add: map_of_eq_None_iff image_image)
  then show ?case using Cons by (auto simp: update_conv' split: option.splits)
qed

text \<open>After a block that is not skipped, the file store holds the files of the block.\<close>

lemma snapshot_block_store:
  assumes "distinct (map fst props)" and "props \<noteq> []"
  shows "map_of (snd (snapshot_block decode (Some props) (fc, st))) =
     map_of (map (\<lambda>p. (fst p, decode (snd p))) props)"
proof
  fix k
  let ?snap = "map (\<lambda>p. (fst p, decode (snd p))) props"
  let ?st1 = "fold (\<lambda>p. AList.update (fst p) (decode (snd p))) props st"
  have st1: "map_of ?st1 k = (case map_of ?snap k of Some c \<Rightarrow> Some c | None \<Rightarrow> map_of st k)"
    using assms(1) by (rule map_of_fold_update)
  have blk: "map_of (snd (snapshot_block decode (Some props) (fc, st))) k =
      (if k \<in> fst ` set ?st1 \<and> \<not> hasOwnProperty props k then None else map_of ?st1 k)"
    using assms(2)
    by (simp add: snapshot_block_def present_loop_changes [OF assms(1)] absent_loop_store)
  show "map_of (snd (snapshot_block decode (Some props) (fc, st))) k = map_of ?snap k"
  proof (cases "hasOwnProperty props k")
    case True
    then have "k \<in> fst ` set ?snap" by (force simp: hasOwnProperty_def)
    then obtain c where "map_of ?snap k = Some c"
      by (metis map_of_eq_None_iff not_None_eq)
    then show ?thesis using True by (simp add: blk st1)
  next
    case False
    then have "k \<notin> fst ` set ?snap" by (force simp: hasOwnProperty_def)
    then have none: "map_of ?snap k = None" by (simp add: map_of_eq_None_iff)
    show ?thesis
    proof (cases "k \<in> fst ` set ?st1")
      case True
      then show ?thesis using False none by (simp add: blk)
    next
      case notin: False
      then have "map_of ?st1 k = None" by (simp add: map_of_eq_None_iff)
      then show ?thesis using notin none by (simp add: blk)
    qed
  qed
qed

text \<open>
  Claim C9, as amended. For an ADDED or MODIFIED event whose snapshot has exactly one
  of \<open>data\<close> and \<open>binaryData\<close> non-empty (the other absent or empty), the driver emits
  exactly the notifications that the diff against its file store calls for: one add per
  new filename, one update per filename with changed content, one remove per known
  filename that the snapshot lacks, nothing for a file with unchanged content. A
  snapshot in which both are absent or empty is skipped: nothing is emitted and the file
  store is kept.
\<close>

theorem snapshot_notifications:
  assumes "distinct (map fst props)" and "props \<noteq> []"
    and "other = None \<or> other = Some []"
  shows "fst (addedModifiedConfigMap decode
              (Some \<lparr>cm_data = Some props, cm_binaryData = other\<rparr>) fileStore) =
           expected_changes fileStore
             (snapshot_files decode (Some \<lparr>cm_data = Some props, cm_binaryData = other\<rparr>))
       \<and> fst (addedModifiedConfigMap decode
              (Some \<lparr>cm_data = other, cm_binaryData = Some props\<rparr>) fileStore) =
           expected_changes fileStore
             (snapshot_files decode (Some \<lparr>cm_data = other, cm_binaryData = Some props\<rparr>))
       \<and> addedModifiedConfigMap decode
              (Some \<lparr>cm_data = other, cm_binaryData = other\<rparr>) fileStore = ([], fileStore)"
proof -
  have d: "fst (snapshot_block (\<lambda>c. c) (Some props) ([], fileStore)) =
      expected_changes fileStore props"
    using snapshot_block_changes [OF assms(1,2), of "\<lambda>c. c" "[]" fileStore] by simp
  have b: "fst (snapshot_block decode (Some props) ([], fileStore)) =
      expected_changes fileStore (map (\<lambda>p. (fst p, decode (snd p))) props)"
    using snapshot_block_changes [OF assms(1,2), of decode "[]" fileStore] by simp
  have skip: "snapshot_block dec other acc = acc" for dec acc
    using assms(3) by (rule snapshot_block_skipped)
  have files: "snapshot_files decode (Some \<lparr>cm_data = Some props, cm_binaryData = other\<rparr>) = props"
    "snapshot_files decode (Some \<lparr>cm_data = other, cm_binaryData = Some props\<rparr>) =
       map (\<lambda>p. (fst p, decode (snd p))) props"
    using assms(3) by (auto simp: snapshot_files_def)
  show ?thesis
    by (simp add: addedModifiedConfigMap_def skip d b files)
qed

theorem snapshot_notifications_witness:
  "distinct (map fst [(''a.yaml'', ''x: 2''), (''c.yaml'', ''z: 1'')])
   \<and> [(''a.yaml'', ''x: 2''), (''c.yaml'', ''z: 1'')] \<noteq> []
   \<and> fst (addedModifiedConfigMap (\<lambda>c. c)
        (Some \<lparr>cm_data = Some [(''a.yaml'', ''x: 2''), (''c.yaml'', ''z: 1'')],
               cm_binaryData = None\<rparr>)
        [(''a.yaml'', ''x: 1''), (''b.yaml'', ''y: 1'')]) =
      [\<lparr>fc_type = TypeUpdate, fc_filename = ''a.yaml'', fc_content = Some ''x: 2''\<rparr>,
       \<lparr>fc_type = TypeAdd, fc_filename = ''c.yaml'', fc_content = Some ''z: 1''\<rparr>,
       \<lparr>fc_type = TypeRemove, fc_filename = ''b.yaml'', fc_content = None\<rparr>]
   \<and> addedModifiedConfigMap (\<lambda>c. c)
        (Some \<lparr>cm_data = None, cm_binaryData = None\<rparr>)
        [(''a.yaml'', ''x: 1''), (''b.yaml'', ''y: 1'')] =
      ([], [(''a.yaml'', ''x: 1''), (''b.yaml'', ''y: 1'')])"
proof -
  have h1: "distinct (map fst [(''a.yaml'', ''x: 2''), (''c.yaml'', ''z: 1'')])" by simp
  have h2: "[(''a.yaml'', ''x: 2''), (''c.yaml'', ''z: 1'')] \<noteq> []" by simp
  have h3: "(None :: (string \<times> string) list option) = None \<or> None = Some []" by simp
  have e: "expected_changes [(''a.yaml'', ''x: 1''), (''b.yaml'', ''y: 1'')]
      (snapshot_files (\<lambda>c. c)
         (Some \<lparr>cm_data = Some [(''a.yaml'', ''x: 2''), (''c.yaml'', ''z: 1'')],
                cm_binaryData = None\<rparr>)) =
      [\<lparr>fc_type = TypeUpdate, fc_filename = ''a.yaml'', fc_content = Some ''x: 2''\<rparr>,
       \<lparr>fc_type = TypeAdd, fc_filename = ''c.yaml'', fc_content = Some ''z: 1''\<rparr>,
       \<lparr>fc_type = TypeRemove, fc_filename = ''b.yaml'', fc_content = None\<rparr>]"
    by (simp add: expected_changes_def expected_change_def expected_removal_def
        snapshot_files_def hasOwnProperty_def)
  show ?thesis
    using h1 h2 e
      snapshot_notifications [OF h1 h2 h3, of "\<lambda>c. c"
        "[(''a.yaml'', ''x: 1''), (''b.yaml'', ''y: 1'')]"]
    by simp
qed

text \<open>
  The claim as stated fails on a snapshot without files: the guard
  \<open>data && Object.keys(data).length > 0\<close> skips it, and no remove is emitted for the
  known file that the snapshot no longer has.
\<close>

theorem emptied_snapshot_emits_no_remove:
  "fst (addedModifiedConfigMap (\<lambda>c. c) (Some \<lparr>cm_data = None, cm_binaryData = None\<rparr>)
          [(''a.yaml'', ''x: 1'')]) = []
   \<and> expected_changes [(''a.yaml'', ''x: 1'')]
        (snapshot_files (\<lambda>c. c) (Some \<lparr>cm_data = None, cm_binaryData = None\<rparr>)) =
      [\<lparr>fc_type = TypeRemove, fc_filename = ''a.yaml'', fc_content = None\<rparr>]
   \<and> mset (fst (addedModifiedConfigMap (\<lambda>c. c)
          (Some \<lparr>cm_data = None, cm_binaryData = None\<rparr>) [(''a.yaml'', ''x: 1'')])) \<noteq>
     mset (expected_changes [(''a.yaml'', ''x: 1'')]
        (snapshot_files (\<lambda>c. c) (Some \<lparr>cm_data = None, cm_binaryData = None\<rparr>)))"
  by (simp add: addedModifiedConfigMap_def snapshot_block_def expected_changes_def
      expected_change_def expected_removal_def snapshot_files_def hasOwnProperty_def)

text \<open>
  When both \<open>data\<close> and \<open>binaryData\<close> have files, each block removes the files of the
  other from the one file store: an unchanged snapshot, delivered again, emits an add
  and a remove for each of its files.
\<close>

lemma data_and_binaryData_redelivered:
  "addedModifiedConfigMap (\<lambda>c. c)
     (Some \<lparr>cm_data = Some [(''a.yaml'', ''x: 1'')],
            cm_binaryData = Some [(''b.bin'', ''y'')]\<rparr>) [(''b.bin'', ''y'')] =
     ([\<lparr>fc_type = TypeAdd, fc_filename = ''a.yaml'', fc_content = Some ''x: 1''\<rparr>,
       \<lparr>fc_type = TypeRemove, fc_filename = ''b.bin'', fc_content = None\<rparr>,
       \<lparr>fc_type = TypeAdd, fc_filename = ''b.bin'', fc_content = Some ''y''\<rparr>,
       \<lparr>fc_type = TypeRemove, fc_filename = ''a.yaml'', fc_content = None\<rparr>],
      [(''b.bin'', ''y'')])"
  by (simp add: addedModifiedConfigMap_def snapshot_block_def hasOwnProperty_def Let_def)

section \<open>The public operations on the state\<close>

lemma removeSet_empty_id: "removeSet [] w = (Undefined, w)"
  by (simp add: removeSet_def)

lemma removeSet_absent_id:
  assumes "\<not> hasOwnProperty (state w) ident" and "ident \<notin> set Object_prototype_keys"
  shows "removeSet ident w = (Undefined, w)"
proof -
  have "map_of (state w) ident = None"
    using assms(1) by (simp add: hasOwnProperty_def map_of_eq_None_iff)
  then have "property_get (state w) ident = Undefined"
    using assms(2) by (simp add: property_get_def)
  then show ?thesis by (simp add: removeSet_def)
qed

lemma addOrUpdateSet_null: "addOrUpdateSet getId None w = (None, w)"
  by (simp add: addOrUpdateSet_def)

text \<open>
  Claim C10. \<open>removeSet\<close> with an empty id and \<open>addOrUpdateSet\<close> with \<open>null\<close> return
  without touching the state, as the three lemmas above say. For an id that is not in
  the state the claim holds only when the id does not name a property of
  \<open>Object.prototype\<close>: \<open>removeSet("toString")\<close> on the initial state reads the
  inherited function, finds it truthy, pushes a copy of the state on \<open>_state$\<close> and
  returns the function instead of \<open>undefined\<close>.
\<close>

theorem removeSet_inherited_name:
  "removeSet ''toString'' new_watcher =
     (PrototypeValue ''toString'', \<lparr>state = [], trace = [StateNext []]\<rparr>)"
  by (simp add: removeSet_def new_watcher_def property_get_def Object_prototype_keys_def
      rest_without_def Object_entries_def state_next_def)

end
